theory Spec2Isabelle
  imports Main "HOL-Library.Sublist"
begin

section \<open>JavaScript values\<close>

text \<open>
  The request body, the parsed message content and the AnswerService response are JSON
  values read by property access, truthiness tests and strict comparison with string
  literals. \<open>JUndefined\<close> is the value of an absent property. The program never
  computes with a number: it tests it for zero, compares it and converts it to a string;
  a number is kept as the text \<open>Number.prototype.toString\<close> gives for it (\<open>0\<close> and
  \<open>-0\<close>, which no operation of the program tells apart, both as \<open>0\<close>). Strings are
  byte sequences (UTF-8). An object is the association list of its own properties.
\<close>

datatype jsval =
  JUndefined
| JNull
| JBool bool
| JNum string
| JStr string
| JArr "jsval list"
| JObj "(string \<times> jsval) list"

datatype exn = TypeError | SyntaxError | FetchError | InvalidResponse | NotFound | TransportError

definition bindE :: "exn + 'a \<Rightarrow> ('a \<Rightarrow> exn + 'b) \<Rightarrow> exn + 'b" where
  "bindE m f = (case m of Inl e \<Rightarrow> Inl e | Inr x \<Rightarrow> f x)"

text \<open>
  \<open>v.k\<close> for one of the property names the program reads (none of them is inherited
  from a prototype, none is an index or \<open>length\<close>): a TypeError on \<open>undefined\<close> and
  \<open>null\<close>, the own property of an object, \<open>undefined\<close> otherwise.
\<close>

fun get :: "jsval \<Rightarrow> string \<Rightarrow> exn + jsval" where
  "get JUndefined k = Inl TypeError"
| "get JNull k = Inl TypeError"
| "get (JObj kvs) k = Inr (case map_of kvs k of None \<Rightarrow> JUndefined | Some v \<Rightarrow> v)"
| "get (JBool b) k = Inr JUndefined"
| "get (JNum n) k = Inr JUndefined"
| "get (JStr s) k = Inr JUndefined"
| "get (JArr xs) k = Inr JUndefined"

fun truthy :: "jsval \<Rightarrow> bool" where
  "truthy JUndefined = False"
| "truthy JNull = False"
| "truthy (JBool b) = b"
| "truthy (JNum n) = (n \<noteq> ''0'')"
| "truthy (JStr s) = (s \<noteq> [])"
| "truthy (JArr xs) = True"
| "truthy (JObj kvs) = True"

fun join :: "string \<Rightarrow> string list \<Rightarrow> string" where
  "join sep [] = []"
| "join sep [x] = x"
| "join sep (x # y # ys) = x @ sep @ join sep (y # ys)"

text \<open>The results of a list of conversions made in order: the first exception, if any.\<close>

fun collect :: "(exn + 'a) list \<Rightarrow> exn + 'a list" where
  "collect [] = Inr []"
| "collect (Inl e # rs) = Inl e"
| "collect (Inr x # rs) = (case collect rs of Inl e \<Rightarrow> Inl e | Inr xs \<Rightarrow> Inr (x # xs))"

text \<open>
  ToString, as a template literal and \<open>Array.prototype.join\<close> apply it. An array is
  joined with commas, its \<open>undefined\<close> and \<open>null\<close> elements giving the empty string. An
  object with an own property \<open>toString\<close> (a JSON value, which cannot be called) has no
  primitive value: a TypeError; any other object is \<open>[object Object]\<close>.
\<close>

fun toString :: "jsval \<Rightarrow> exn + string" where
  "toString JUndefined = Inr ''undefined''"
| "toString JNull = Inr ''null''"
| "toString (JBool b) = Inr (if b then ''true'' else ''false'')"
| "toString (JNum n) = Inr n"
| "toString (JStr s) = Inr s"
| "toString (JArr xs) =
     (case collect (map (\<lambda>x. if x = JUndefined \<or> x = JNull then Inr [] else toString x) xs) of
        Inl e \<Rightarrow> Inl e
      | Inr ss \<Rightarrow> Inr (join '','' ss))"
| "toString (JObj kvs) =
     (if map_of kvs ''toString'' = None then Inr ''[object Object]'' else Inl TypeError)"

text \<open>
  \<open>history.join(" ")\<close>: \<open>undefined\<close> and \<open>null\<close> elements give the empty string, every
  other element is converted to a string; a conversion that throws makes the join throw.
\<close>

definition array_join :: "string \<Rightarrow> jsval list \<Rightarrow> exn + string" where
  "array_join sep xs =
     (case collect (map (\<lambda>x. if x = JUndefined \<or> x = JNull then Inr [] else toString x) xs) of
        Inl e \<Rightarrow> Inl e
      | Inr ss \<Rightarrow> Inr (join sep ss))"

section \<open>String operations\<close>

definition startsWith :: "string \<Rightarrow> string \<Rightarrow> bool" where
  "startsWith s p = prefix p s"

text \<open>\<open>s.replace(pat, rep)\<close> with a string pattern: the first occurrence only.\<close>

fun replace_first :: "string \<Rightarrow> string \<Rightarrow> string \<Rightarrow> string" where
  "replace_first pat rep [] = (if pat = [] then rep else [])"
| "replace_first pat rep (c # cs) =
     (if prefix pat (c # cs) then rep @ drop (length pat) (c # cs)
      else c # replace_first pat rep cs)"

text \<open>
  The white space and line terminators \<open>trim\<close> removes, as UTF-8: U+0009 to U+000D,
  U+0020, U+00A0, U+1680, U+2000 to U+200A, U+2028, U+2029, U+202F, U+205F, U+3000, U+FEFF.
\<close>

definition whiteSpace :: "string list" where
  "whiteSpace =
    [[CHR 0x09], [CHR 0x0A], [CHR 0x0B], [CHR 0x0C], [CHR 0x0D], [CHR 0x20],
     [CHR 0xC2, CHR 0xA0], [CHR 0xE1, CHR 0x9A, CHR 0x80],
     [CHR 0xE2, CHR 0x80, CHR 0x80], [CHR 0xE2, CHR 0x80, CHR 0x81],
     [CHR 0xE2, CHR 0x80, CHR 0x82], [CHR 0xE2, CHR 0x80, CHR 0x83],
     [CHR 0xE2, CHR 0x80, CHR 0x84], [CHR 0xE2, CHR 0x80, CHR 0x85],
     [CHR 0xE2, CHR 0x80, CHR 0x86], [CHR 0xE2, CHR 0x80, CHR 0x87],
     [CHR 0xE2, CHR 0x80, CHR 0x88], [CHR 0xE2, CHR 0x80, CHR 0x89],
     [CHR 0xE2, CHR 0x80, CHR 0x8A], [CHR 0xE2, CHR 0x80, CHR 0xA8],
     [CHR 0xE2, CHR 0x80, CHR 0xA9], [CHR 0xE2, CHR 0x80, CHR 0xAF],
     [CHR 0xE2, CHR 0x81, CHR 0x9F], [CHR 0xE3, CHR 0x80, CHR 0x80],
     [CHR 0xEF, CHR 0xBB, CHR 0xBF]]"

function strip :: "string list \<Rightarrow> string \<Rightarrow> string" where
  "strip ws s =
     (case find (\<lambda>w. w \<noteq> [] \<and> prefix w s) ws of
        None \<Rightarrow> s
      | Some w \<Rightarrow> strip ws (drop (length w) s))"
  by pat_completeness auto
termination
proof (relation "measure (\<lambda>(ws, s). length s)")
  show "wf (measure (\<lambda>(ws, s). length s))" by simp
next
  fix ws :: "string list" and s w :: string
  assume "find (\<lambda>w. w \<noteq> [] \<and> prefix w s) ws = Some w"
  then have "w \<noteq> []" and "prefix w s"
    by (auto simp: find_Some_iff)
  then have "s \<noteq> []" by auto
  with \<open>w \<noteq> []\<close> show "((ws, drop (length w) s), (ws, s)) \<in> measure (\<lambda>(ws, s). length s)"
    by simp
qed

definition trim :: "string \<Rightarrow> string" where
  "trim s = rev (strip (map rev whiteSpace) (rev (strip whiteSpace s)))"

definition toLowerCase :: "string \<Rightarrow> string" where
  \<comment> \<open>On the ASCII letters; no other character lowers to an ASCII letter of the words
      searched for below.\<close>
  "toLowerCase s =
     map (\<lambda>c. if 65 \<le> (of_char c :: nat) \<and> (of_char c :: nat) \<le> 90
               then char_of ((of_char c :: nat) + 32) else c) s"

fun includes_str :: "string \<Rightarrow> string \<Rightarrow> bool" where
  "includes_str [] p = (p = [])"
| "includes_str (c # cs) p = (prefix p (c # cs) \<or> includes_str cs p)"

section \<open>formatMarkdown\<close>

text \<open>
  The regular expressions \<open>/\*\*(.*?)\*\*/g\<close> and \<open>/\*(.*?)\*/g\<close>: an opening delimiter,
  the shortest run of characters other than line terminators (U+000A, U+000D, U+2028,
  U+2029) that is followed by the delimiter again, and that closing delimiter.
\<close>

definition lineTerminatorAt :: "string \<Rightarrow> bool" where
  "lineTerminatorAt s =
     (prefix [CHR 0x0A] s \<or> prefix [CHR 0x0D] s \<or>
      prefix [CHR 0xE2, CHR 0x80, CHR 0xA8] s \<or> prefix [CHR 0xE2, CHR 0x80, CHR 0xA9] s)"

text \<open>\<open>find_close d s\<close>: the lazy group \<open>(.*?)\<close> followed by \<open>d\<close>, and what is left of \<open>s\<close>.\<close>

fun find_close :: "string \<Rightarrow> string \<Rightarrow> (string \<times> string) option" where
  "find_close d [] = (if d = [] then Some ([], []) else None)"
| "find_close d (c # cs) =
     (if prefix d (c # cs) then Some ([], drop (length d) (c # cs))
      else if lineTerminatorAt (c # cs) then None
      else (case find_close d cs of
              None \<Rightarrow> None
            | Some (g, r) \<Rightarrow> Some (c # g, r)))"

lemma find_close_decomp: "find_close d s = Some (g, r) \<Longrightarrow> s = g @ d @ r"
proof (induction s arbitrary: g r)
  case Nil
  then show ?case by (simp split: if_splits)
next
  case (Cons c cs)
  show ?case
  proof (cases "prefix d (c # cs)")
    case True
    with Cons.prems have "g = []" and "r = drop (length d) (c # cs)" by simp_all
    with True show ?thesis by (auto simp: prefix_def)
  next
    case False
    with Cons.prems obtain g' where "find_close d cs = Some (g', r)" and "g = c # g'"
      by (auto split: if_splits option.splits)
    with Cons.IH show ?thesis by simp
  qed
qed

text \<open>
  \<open>text.replace(/d(.*?)d/g, opn + "$1" + cls)\<close> for a non-empty delimiter \<open>d\<close>: every match,
  found from left to right, the search going on after the closing delimiter.
\<close>

function replace_spans :: "string \<Rightarrow> string \<Rightarrow> string \<Rightarrow> string \<Rightarrow> string" where
  "replace_spans d opn cls [] = []"
| "replace_spans d opn cls (c # cs) =
     (if d \<noteq> [] \<and> prefix d (c # cs) then
        (case find_close d (drop (length d) (c # cs)) of
           Some (g, r) \<Rightarrow> opn @ g @ cls @ replace_spans d opn cls r
         | None \<Rightarrow> c # replace_spans d opn cls cs)
      else c # replace_spans d opn cls cs)"
  by pat_completeness auto
termination
proof (relation "measure (\<lambda>(d, opn, cls, s). length s)")
  show "wf (measure (\<lambda>(d, opn, cls, s). length s))" by simp
next
  fix d opn cls :: string and c :: char and cs :: string and x2 :: "string \<times> string" and g r :: string
  assume d: "d \<noteq> [] \<and> prefix d (c # cs)"
    and f: "find_close d (drop (length d) (c # cs)) = Some x2" and x: "(g, r) = x2"
  from f x have "drop (length d) (c # cs) = g @ d @ r"
    by (simp add: find_close_decomp)
  then have "length r \<le> length (drop (length d) (c # cs))"
    by simp
  moreover from d obtain x xs where "d = x # xs"
    by (cases d) auto
  ultimately have "length r < length (c # cs)"
    by simp
  then show "((d, opn, cls, r), (d, opn, cls, c # cs)) \<in> measure (\<lambda>(d, opn, cls, s). length s)"
    by simp
qed simp_all

definition formatMarkdown :: "string \<Rightarrow> string" where
  "formatMarkdown text =
     replace_spans ''*'' ''<i>'' ''</i>'' (replace_spans ''**'' ''<b>'' ''</b>'' text)"

section \<open>The outside world and the process state\<close>

text \<open>
  A call of \<open>client.im.message.reply\<close>: the message replied to, the content (the text, or
  the image key) and the message type.
\<close>

datatype payload = Text_content string | Image_key jsval

record message =
  message_id :: jsval
  content :: payload
  msg_type :: string

text \<open>
  What the program does not decide: the configuration, the ChatTransport (\<open>lark_reply\<close>,
  given the calls made before and the message: the response, or \<open>None\<close> when the call
  rejects), the AnswerService (\<open>flowise\<close>, given the requests made before and the
  question sent: the parsed JSON response, or \<open>None\<close> when \<open>fetch\<close> or
  \<open>response.json()\<close> rejects), the built-in \<open>JSON.parse\<close> (\<open>None\<close> for a SyntaxError),
  and for the image path the file system and the upload endpoint.
\<close>

record env =
  LARK_APP_ID :: string
  LARK_APP_SECRET :: string
  lark_reply :: "message list \<Rightarrow> message \<Rightarrow> jsval option"
  flowise :: "string list \<Rightarrow> string \<Rightarrow> jsval option"
  JSON_parse :: "jsval \<Rightarrow> jsval option"
  existsSync :: "string \<Rightarrow> bool"
  image_create :: "string \<Rightarrow> jsval option"

text \<open>
  The side effects, in the order the program makes them: an \<open>event_id\<close> added to
  \<open>processedEvents\<close>, a history written (pushed on and set) or deleted for a session, a
  question posted to the AnswerService, a message handed to the transport, a file handed
  to the upload endpoint.
\<close>

datatype effect =
  Added jsval
| Stored string
| Deleted string
| Asked string
| Sent message
| Uploaded string

text \<open>
  The process state. The history arrays are objects: \<open>heap\<close> holds their contents by
  address, \<open>next_ref\<close> is the first address not yet used, and the Map
  \<open>conversationHistories\<close> holds, for a session, the address of its array. An array
  lives on, under its address, after its key is deleted: a call of \<open>queryFlowise\<close> that
  is waiting for the AnswerService still holds it. The other fields record what was done:
  \<open>outbox\<close> has one entry for each reply operation, the transport calls it attempted in
  order; \<open>asked\<close> is the list of questions posted to the AnswerService; \<open>trace\<close> is the
  list of all side effects in order.
\<close>

record state =
  heap :: "nat \<Rightarrow> jsval list"
  next_ref :: nat
  conversationHistories :: "string \<Rightarrow> nat option"
  processedEvents :: "jsval set"
  outbox :: "message list list"
  asked :: "string list"
  trace :: "effect list"

section \<open>src/index.js\<close>

text \<open>\<open>for (const artifact of artifacts)\<close>: an array or a string can be iterated.\<close>

fun iterate :: "jsval \<Rightarrow> exn + jsval list" where
  "iterate (JArr xs) = Inr xs"
| "iterate (JStr s) = Inr (map (\<lambda>c. JStr [c]) s)"
| "iterate JUndefined = Inl TypeError"
| "iterate JNull = Inl TypeError"
| "iterate (JBool b) = Inl TypeError"
| "iterate (JNum n) = Inl TypeError"
| "iterate (JObj kvs) = Inl TypeError"

text \<open>
  The loop of \<open>reply\<close> over the artifacts, \<open>prior\<close> being the transport calls made so
  far: the calls the loop attempts. An exception (a rejected call, a property read on
  \<open>null\<close>) leaves the loop for the \<open>catch\<close> of \<open>reply\<close>.
\<close>

fun send_artifacts :: "env \<Rightarrow> message list \<Rightarrow> jsval \<Rightarrow> jsval list \<Rightarrow> message list" where
  "send_artifacts env prior messageId [] = []"
| "send_artifacts env prior messageId (artifact # rest) =
     (case get artifact ''type'' of
        Inl e \<Rightarrow> []
      | Inr ty \<Rightarrow>
          if ty = JStr ''png'' then
            (case get artifact ''data'' of
               Inl e \<Rightarrow> []
             | Inr d \<Rightarrow>
                 (let m = \<lparr>message_id = messageId, content = Image_key d, msg_type = ''image''\<rparr>
                  in case lark_reply env prior m of
                       None \<Rightarrow> [m]
                     | Some r \<Rightarrow> m # send_artifacts env (prior @ [m]) messageId rest))
          else send_artifacts env prior messageId rest)"

text \<open>
  \<open>reply(messageId, content, artifacts = [], msgType = "text")\<close>. Every exception is
  caught and logged; the function returns \<open>undefined\<close>. \<open>formatMarkdown\<close> throws on a
  content that is not a string, before anything is sent.
\<close>

definition reply :: "env \<Rightarrow> jsval \<Rightarrow> jsval \<Rightarrow> jsval \<Rightarrow> string \<Rightarrow> state \<Rightarrow> state" where
  "reply env messageId cont artifacts msgType s =
     (let prior = concat (outbox s);
          attempts =
            (case cont of
               JStr c \<Rightarrow>
                 (let m = \<lparr>message_id = messageId, content = Text_content (formatMarkdown c),
                            msg_type = msgType\<rparr>
                  in case lark_reply env prior m of
                       None \<Rightarrow> [m]
                     | Some r \<Rightarrow>
                         (case iterate (if artifacts = JUndefined then JArr [] else artifacts) of
                            Inl e \<Rightarrow> [m]
                          | Inr as \<Rightarrow> m # send_artifacts env (prior @ [m]) messageId as))
             | _ \<Rightarrow> [])
      in s\<lparr>outbox := outbox s @ [attempts], trace := trace s @ map Sent attempts\<rparr>)"

definition helpText :: string where
  "helpText =
     [CHR 0x0A] @ ''  Lark GPT Commands'' @ [CHR 0x0A] @ [CHR 0x0A] @
     ''  Usage:'' @ [CHR 0x0A] @
     ''  - /clear : Remove conversation history to start a new session.'' @ [CHR 0x0A] @
     ''  - /help : Get more help messages.'' @ [CHR 0x0A] @ ''  ''"

text \<open>The third argument of \<open>reply\<close> is \<open>artifacts\<close> here: the string "Help".\<close>

definition cmdHelp :: "env \<Rightarrow> jsval \<Rightarrow> state \<Rightarrow> state" where
  "cmdHelp env messageId s = reply env messageId (JStr helpText) (JStr ''Help'') ''text'' s"

definition clearedText :: string where
  "clearedText = [CHR 0xE2, CHR 0x9C, CHR 0x85] @ '' Conversation history cleared.''"

definition cmdClear :: "env \<Rightarrow> string \<Rightarrow> jsval \<Rightarrow> state \<Rightarrow> state" where
  "cmdClear env sessionId messageId s =
     reply env messageId (JStr clearedText) JUndefined ''text''
       (s\<lparr>conversationHistories := (conversationHistories s)(sessionId := None),
          trace := trace s @ [Deleted sessionId]\<rparr>)"

definition cmdProcess :: "env \<Rightarrow> string \<Rightarrow> string \<Rightarrow> jsval \<Rightarrow> state \<Rightarrow> state" where
  "cmdProcess env action sessionId messageId s =
     (if action = ''/help'' then cmdHelp env messageId s
      else if action = ''/clear'' then cmdClear env sessionId messageId s
      else cmdHelp env messageId s)"

text \<open>
  \<open>conversationHistories.get(sessionId) || []\<close>: the array the Map holds for the
  session, or a new empty array.
\<close>

definition history_array :: "string \<Rightarrow> state \<Rightarrow> nat \<times> state" where
  "history_array sessionId s =
     (case conversationHistories s sessionId of
        Some r \<Rightarrow> (r, s)
      | None \<Rightarrow>
          (next_ref s, s\<lparr>heap := (heap s)(next_ref s := []), next_ref := Suc (next_ref s)\<rparr>))"

text \<open>The contents of the array the Map holds for a session; nothing if it holds none.\<close>

definition history_of :: "state \<Rightarrow> string \<Rightarrow> jsval list" where
  "history_of s sessionId =
     (case conversationHistories s sessionId of None \<Rightarrow> [] | Some r \<Rightarrow> heap s r)"

text \<open>
  \<open>queryFlowise\<close> up to \<open>await fetch(...)\<close>: the question is pushed on the array and
  the array set for the session; inside the \<open>try\<close> the history is joined and the
  request posted. The call then waits, holding the array (\<open>history\<close>) and the
  \<open>sessionId\<close>. A join that throws is caught, logged and thrown again: the call ends
  there, with no request.
\<close>

definition queryFlowise_begin ::
  "string \<Rightarrow> string \<Rightarrow> state \<Rightarrow> (exn + (nat \<times> string)) \<times> state" where
  "queryFlowise_begin question sessionId s =
     (case history_array sessionId s of
        (history, s0) \<Rightarrow>
          (let s1 = s0\<lparr>heap := (heap s0)(history := heap s0 history @ [JStr question]),
                       conversationHistories := (conversationHistories s0)(sessionId \<mapsto> history),
                       trace := trace s0 @ [Stored sessionId]\<rparr>
           in case array_join '' '' (heap s1 history) of
                Inl e \<Rightarrow> (Inl e, s1)
              | Inr body \<Rightarrow>
                  (Inr (history, body),
                   s1\<lparr>asked := asked s1 @ [body], trace := trace s1 @ [Asked body]\<rparr>)))"

text \<open>
  \<open>queryFlowise\<close> from the answer of the AnswerService on (\<open>None\<close>: \<open>fetch\<close> or
  \<open>response.json()\<close> rejected): when the response has a truthy \<open>text\<close>, it is pushed on
  the array the call holds and that array is set for the session again, and the call
  returns the response; otherwise the call throws.
\<close>

definition queryFlowise_resume ::
  "nat \<Rightarrow> string \<Rightarrow> jsval option \<Rightarrow> state \<Rightarrow> (exn + jsval) \<times> state" where
  "queryFlowise_resume history sessionId response s =
     (case response of
        None \<Rightarrow> (Inl FetchError, s)
      | Some result \<Rightarrow>
          (case get result ''text'' of
             Inl e \<Rightarrow> (Inl e, s)
           | Inr t \<Rightarrow>
               if truthy t then
                 (Inr result,
                  s\<lparr>heap := (heap s)(history := heap s history @ [t]),
                    conversationHistories := (conversationHistories s)(sessionId \<mapsto> history),
                    trace := trace s @ [Stored sessionId]\<rparr>)
               else (Inl InvalidResponse, s)))"

text \<open>
  A call of \<open>queryFlowise\<close> during which nothing else runs: the answer comes while the
  state is as the first part left it.
\<close>

definition queryFlowise :: "env \<Rightarrow> string \<Rightarrow> string \<Rightarrow> state \<Rightarrow> (exn + jsval) \<times> state" where
  "queryFlowise env question sessionId s =
     (case queryFlowise_begin question sessionId s of
        (Inl e, s1) \<Rightarrow> (Inl e, s1)
      | (Inr (history, body), s1) \<Rightarrow>
          queryFlowise_resume history sessionId (flowise env (asked s) body) s1)"

definition invalidInputText :: string where
  "invalidInputText =
     [CHR 0xE2, CHR 0x9A, CHR 0xA0, CHR 0xEF, CHR 0xB8, CHR 0x8F] @
     '' Invalid input received. Please provide a valid question.''"

definition errorText :: string where
  "errorText =
     [CHR 0xE2, CHR 0x9A, CHR 0xA0, CHR 0xEF, CHR 0xB8, CHR 0x8F] @
     '' An error occurred while processing your request.''"

text \<open>
  \<open>userInput.text ? userInput.text.replace("@_user_1", "").trim() : null\<close>: \<open>None\<close> is
  \<open>null\<close>; a truthy text that is not a string has no \<open>replace\<close> method.
\<close>

definition question_of :: "jsval \<Rightarrow> exn + string option" where
  "question_of userInput =
     bindE (get userInput ''text'') (\<lambda>t.
       if truthy t then
         (case t of
            JStr txt \<Rightarrow> Inr (Some (trim (replace_first ''@_user_1'' [] txt)))
          | _ \<Rightarrow> Inl TypeError)
       else Inr None)"

definition handleReply ::
  "env \<Rightarrow> jsval \<Rightarrow> string \<Rightarrow> jsval \<Rightarrow> state \<Rightarrow> (exn + jsval) \<times> state" where
  "handleReply env userInput sessionId messageId s =
     (case question_of userInput of
        Inl e \<Rightarrow> (Inl e, s)
      | Inr None \<Rightarrow> (Inr JUndefined, reply env messageId (JStr invalidInputText) JUndefined ''text'' s)
      | Inr (Some question) \<Rightarrow>
          if question = [] then
            (Inr JUndefined, reply env messageId (JStr invalidInputText) JUndefined ''text'' s)
          else if startsWith question ''/'' then
            (Inr JUndefined, cmdProcess env question sessionId messageId s)
          else
            (case queryFlowise env question sessionId s of
               (Inl e, s1) \<Rightarrow>
                 (Inr JUndefined, reply env messageId (JStr errorText) JUndefined ''text'' s1)
             | (Inr flowiseResponse, s1) \<Rightarrow>
                 (case bindE (get flowiseResponse ''text'') (\<lambda>t.
                         bindE (get flowiseResponse ''artifacts'') (\<lambda>a. Inr (t, a))) of
                    Inl e \<Rightarrow>
                      (Inr JUndefined, reply env messageId (JStr errorText) JUndefined ''text'' s1)
                  | Inr (t, artifacts) \<Rightarrow>
                      (Inr JUndefined,
                       reply env messageId t (if artifacts = JUndefined then JArr [] else artifacts)
                         ''text'' s1))))"

text \<open>
  \<open>handleReply\<close> from the moment the call of \<open>queryFlowise\<close> it waits for is settled,
  in the state the other invocations have left by then: the rest of \<open>queryFlowise\<close>,
  and the reply inside or after the \<open>try\<close>.
\<close>

definition handleReply_resume ::
  "env \<Rightarrow> nat \<Rightarrow> string \<Rightarrow> jsval \<Rightarrow> jsval option \<Rightarrow> state \<Rightarrow> (exn + jsval) \<times> state" where
  "handleReply_resume env history sessionId messageId response s =
     (case queryFlowise_resume history sessionId response s of
        (Inl e, s1) \<Rightarrow>
          (Inr JUndefined, reply env messageId (JStr errorText) JUndefined ''text'' s1)
      | (Inr flowiseResponse, s1) \<Rightarrow>
          (case bindE (get flowiseResponse ''text'') (\<lambda>t.
                  bindE (get flowiseResponse ''artifacts'') (\<lambda>a. Inr (t, a))) of
             Inl e \<Rightarrow>
               (Inr JUndefined, reply env messageId (JStr errorText) JUndefined ''text'' s1)
           | Inr (t, artifacts) \<Rightarrow>
               (Inr JUndefined,
                reply env messageId t (if artifacts = JUndefined then JArr [] else artifacts)
                  ''text'' s1)))"

definition validateAppConfig :: "env \<Rightarrow> jsval" where
  "validateAppConfig env =
     (if LARK_APP_ID env = [] \<or> LARK_APP_SECRET env = [] then
        JObj [(''code'', JNum ''1''), (''message'', JStr ''Missing Lark App ID or Secret'')]
      else if \<not> startsWith (LARK_APP_ID env) ''cli_'' then
        JObj [(''code'', JNum ''1''),
              (''message'', JStr (''Lark App ID must start with '' @ [CHR 0x27] @ ''cli_'' @ [CHR 0x27]))]
      else
        JObj [(''code'', JNum ''0''),
              (''message'',
               JStr ([CHR 0xE2, CHR 0x9C, CHR 0x85] @ '' Lark App configuration is valid.''))])"

text \<open>
  \<open>res.json(body)\<close>: the body sent, as the value its JSON text denotes. A property
  whose value is \<open>undefined\<close> is left out of the text; for \<open>undefined\<close> itself the body
  is empty (\<open>JUndefined\<close>). The objects the handler passes are literals, with no
  property named twice.
\<close>

definition res_json :: "jsval \<Rightarrow> jsval" where
  "res_json body =
     (case body of
        JObj kvs \<Rightarrow> JObj (filter (\<lambda>kv. snd kv \<noteq> JUndefined) kvs)
      | _ \<Rightarrow> body)"

text \<open>
  \<open>processedEvents.has\<close>: a Set compares primitive values by value and objects by
  identity, and every request body is parsed into fresh objects.
\<close>

definition has :: "jsval set \<Rightarrow> jsval \<Rightarrow> bool" where
  "has S v = (case v of JArr xs \<Rightarrow> False | JObj kvs \<Rightarrow> False | _ \<Rightarrow> v \<in> S)"

text \<open>The fields the handler reads from a message event, in the order it reads them.\<close>

definition message_fields :: "jsval \<Rightarrow> exn + (jsval \<times> jsval \<times> jsval \<times> jsval)" where
  "message_fields params =
     bindE (get params ''event'') (\<lambda>event.
     bindE (get event ''message'') (\<lambda>msg.
     bindE (get msg ''message_id'') (\<lambda>messageId.
     bindE (get msg ''chat_id'') (\<lambda>chatId.
     bindE (get msg ''message_type'') (\<lambda>messageType.
     bindE (get event ''sender'') (\<lambda>sender.
     bindE (get sender ''sender_id'') (\<lambda>sender_id.
     bindE (get sender_id ''user_id'') (\<lambda>senderId.
       Inr (messageId, chatId, messageType, senderId)))))))))"

text \<open>
  The template literal \<open>`${chatId}${senderId}`\<close>: both values are converted to strings,
  \<open>chatId\<close> first; a conversion that throws makes the handler throw.
\<close>

definition deriveSessionId :: "jsval \<Rightarrow> jsval \<Rightarrow> exn + string" where
  "deriveSessionId chatId senderId =
     bindE (toString chatId) (\<lambda>c. bindE (toString senderId) (\<lambda>u. Inr (c @ u)))"

definition message_content :: "jsval \<Rightarrow> exn + jsval" where
  "message_content params =
     bindE (get params ''event'') (\<lambda>event.
     bindE (get event ''message'') (\<lambda>msg. get msg ''content''))"

definition duplicateResponse :: jsval where
  "duplicateResponse = JObj [(''code'', JNum ''0''), (''message'', JStr ''Duplicate event'')]"

text \<open>
  The handler has no \<open>try\<close>: an exception rejects the handler's promise (\<open>Inl\<close>), and
  no response is sent; what becomes of the process then is not part of the model. What
  the handler does with a message event once its \<open>event_id\<close> is in \<open>processedEvents\<close>:
\<close>

definition handle_message ::
  "env \<Rightarrow> jsval \<Rightarrow> jsval \<Rightarrow> string \<Rightarrow> jsval \<Rightarrow> state \<Rightarrow> (exn + jsval) \<times> state" where
  "handle_message env params messageId sessionId messageType s1 =
     (if messageType \<noteq> JStr ''text'' then
        (Inr (res_json (JObj [(''code'', JNum ''0'')])),
         reply env messageId (JStr ''Only text messages are supported.'') JUndefined ''text'' s1)
      else
        (case message_content params of
           Inl e \<Rightarrow> (Inl e, s1)
         | Inr c \<Rightarrow>
             (case JSON_parse env c of
                None \<Rightarrow> (Inl SyntaxError, s1)
              | Some userInput \<Rightarrow>
                  (case handleReply env userInput sessionId messageId s1 of
                     (Inl e, s2) \<Rightarrow> (Inl e, s2)
                   | (Inr result, s2) \<Rightarrow> (Inr (res_json result), s2)))))"

text \<open>
  The branch of the handler for \<open>im.message.receive_v1\<close>: the fields are read and the
  session identifier derived before the \<open>event_id\<close> is looked up.
\<close>

definition message_received :: "env \<Rightarrow> jsval \<Rightarrow> jsval \<Rightarrow> state \<Rightarrow> (exn + jsval) \<times> state" where
  "message_received env params eventId s =
     (case message_fields params of
        Inl e \<Rightarrow> (Inl e, s)
      | Inr (messageId, chatId, messageType, senderId) \<Rightarrow>
          (case deriveSessionId chatId senderId of
             Inl e \<Rightarrow> (Inl e, s)
           | Inr sessionId \<Rightarrow>
               if has (processedEvents s) eventId then (Inr (res_json duplicateResponse), s)
               else
                 handle_message env params messageId sessionId messageType
                   (s\<lparr>processedEvents := insert eventId (processedEvents s),
                      trace := trace s @ [Added eventId]\<rparr>)))"

text \<open>\<open>app.post("/webhook", ...)\<close>: the body, the state; the body of the response.\<close>

definition webhook :: "env \<Rightarrow> jsval \<Rightarrow> state \<Rightarrow> (exn + jsval) \<times> state" where
  "webhook env params s =
     (case get params ''type'' of
        Inl e \<Rightarrow> (Inl e, s)
      | Inr ty \<Rightarrow>
          if ty = JStr ''url_verification'' then
            (case get params ''challenge'' of
               Inl e \<Rightarrow> (Inl e, s)
             | Inr c \<Rightarrow> (Inr (res_json (JObj [(''challenge'', c)])), s))
          else
            (case get params ''encrypt'' of
               Inl e \<Rightarrow> (Inl e, s)
             | Inr enc \<Rightarrow>
                 if truthy enc then
                   (Inr (res_json
                           (JObj [(''code'', JNum ''1''),
                                  (''message'', JStr ''Encryption is enabled, please disable it.'')])),
                    s)
                 else
                   (case get params ''header'' of
                      Inl e \<Rightarrow> (Inl e, s)
                    | Inr header \<Rightarrow>
                        if \<not> truthy header then (Inr (res_json (validateAppConfig env)), s)
                        else
                          (case bindE (get header ''event_type'') (\<lambda>eventType.
                                  bindE (get header ''event_id'') (\<lambda>eventId.
                                    Inr (eventType, eventId))) of
                             Inl e \<Rightarrow> (Inl e, s)
                           | Inr (eventType, eventId) \<Rightarrow>
                               if eventType = JStr ''im.message.receive_v1'' then
                                 message_received env params eventId s
                               else (Inr (res_json (JObj [(''code'', JNum ''2'')])), s)))))"

section \<open>src/unnamed/part_000\<close>

text \<open>
  The second source file has the same configuration, tables, \<open>formatMarkdown\<close>,
  \<open>cmdProcess\<close>, \<open>cmdClear\<close>, \<open>validateAppConfig\<close> and webhook handler; its \<open>reply\<close>
  sends the text only and returns the response of the call, its \<open>queryFlowise\<close> returns
  the answer text, and its \<open>handleReply\<close> differs.
\<close>

text \<open>\<open>reply(messageId, content, msgType = "text")\<close>\<close>

definition reply_000 :: "env \<Rightarrow> jsval \<Rightarrow> jsval \<Rightarrow> string \<Rightarrow> state \<Rightarrow> jsval \<times> state" where
  "reply_000 env messageId cont msgType s =
     (case cont of
        JStr c \<Rightarrow>
          (let m = \<lparr>message_id = messageId, content = Text_content (formatMarkdown c),
                     msg_type = msgType\<rparr>
           in case lark_reply env (concat (outbox s)) m of
                None \<Rightarrow>
                  (JUndefined, s\<lparr>outbox := outbox s @ [[m]], trace := trace s @ [Sent m]\<rparr>)
              | Some r \<Rightarrow> (r, s\<lparr>outbox := outbox s @ [[m]], trace := trace s @ [Sent m]\<rparr>))
      | _ \<Rightarrow> (JUndefined, s\<lparr>outbox := outbox s @ [[]]\<rparr>))"

text \<open>\<open>uploadImage\<close>: the image key, or the exception thrown again after logging.\<close>

definition uploadImage :: "env \<Rightarrow> string \<Rightarrow> state \<Rightarrow> (exn + jsval) \<times> state" where
  "uploadImage env filePath s =
     (if \<not> existsSync env filePath then (Inl NotFound, s)
      else (case image_create env filePath of
              None \<Rightarrow> (Inl TransportError, s\<lparr>trace := trace s @ [Uploaded filePath]\<rparr>)
            | Some response \<Rightarrow>
                (bindE (get response ''data'') (\<lambda>d. get d ''image_key''),
                 s\<lparr>trace := trace s @ [Uploaded filePath]\<rparr>)))"

text \<open>\<open>replyWithImage\<close> has no \<open>try\<close>: a refused call throws.\<close>

definition replyWithImage :: "env \<Rightarrow> jsval \<Rightarrow> jsval \<Rightarrow> state \<Rightarrow> (exn + jsval) \<times> state" where
  "replyWithImage env messageId imageKey s =
     (let m = \<lparr>message_id = messageId, content = Image_key imageKey, msg_type = ''image''\<rparr>
      in case lark_reply env (concat (outbox s)) m of
           None \<Rightarrow>
             (Inl TransportError, s\<lparr>outbox := outbox s @ [[m]], trace := trace s @ [Sent m]\<rparr>)
         | Some r \<Rightarrow> (Inr r, s\<lparr>outbox := outbox s @ [[m]], trace := trace s @ [Sent m]\<rparr>))"

definition helpText_000 :: string where
  "helpText_000 =
     [CHR 0x0A] @ ''  Lark GPT Commands:'' @ [CHR 0x0A] @
     ''  - /clear : Remove conversation history to start a new session.'' @ [CHR 0x0A] @
     ''  - /help : Get more help messages.'' @ [CHR 0x0A] @ ''  ''"

text \<open>The third argument of \<open>reply\<close> is \<open>msgType\<close> here: the message type "Help".\<close>

definition cmdHelp_000 :: "env \<Rightarrow> jsval \<Rightarrow> state \<Rightarrow> state" where
  "cmdHelp_000 env messageId s = snd (reply_000 env messageId (JStr helpText_000) ''Help'' s)"

definition cmdClear_000 :: "env \<Rightarrow> string \<Rightarrow> jsval \<Rightarrow> state \<Rightarrow> state" where
  "cmdClear_000 env sessionId messageId s =
     snd (reply_000 env messageId (JStr clearedText) ''text''
            (s\<lparr>conversationHistories := (conversationHistories s)(sessionId := None),
               trace := trace s @ [Deleted sessionId]\<rparr>))"

definition cmdProcess_000 :: "env \<Rightarrow> string \<Rightarrow> string \<Rightarrow> jsval \<Rightarrow> state \<Rightarrow> state" where
  "cmdProcess_000 env action sessionId messageId s =
     (if action = ''/help'' then cmdHelp_000 env messageId s
      else if action = ''/clear'' then cmdClear_000 env sessionId messageId s
      else cmdHelp_000 env messageId s)"

text \<open>
  \<open>queryFlowise\<close> of the second file is the same code up to \<open>await fetch(...)\<close>
  (\<open>queryFlowise_begin\<close>); from the answer on, it differs in what it returns: the text
  of the response.
\<close>

definition queryFlowise_resume_000 ::
  "nat \<Rightarrow> string \<Rightarrow> jsval option \<Rightarrow> state \<Rightarrow> (exn + jsval) \<times> state" where
  "queryFlowise_resume_000 history sessionId response s =
     (case response of
        None \<Rightarrow> (Inl FetchError, s)
      | Some result \<Rightarrow>
          (case get result ''text'' of
             Inl e \<Rightarrow> (Inl e, s)
           | Inr t \<Rightarrow>
               if truthy t then
                 (Inr t,
                  s\<lparr>heap := (heap s)(history := heap s history @ [t]),
                    conversationHistories := (conversationHistories s)(sessionId \<mapsto> history),
                    trace := trace s @ [Stored sessionId]\<rparr>)
               else (Inl InvalidResponse, s)))"

definition queryFlowise_000 ::
  "env \<Rightarrow> string \<Rightarrow> string \<Rightarrow> state \<Rightarrow> (exn + jsval) \<times> state" where
  "queryFlowise_000 env question sessionId s =
     (case queryFlowise_begin question sessionId s of
        (Inl e, s1) \<Rightarrow> (Inl e, s1)
      | (Inr (history, body), s1) \<Rightarrow>
          queryFlowise_resume_000 history sessionId (flowise env (asked s) body) s1)"

text \<open>The test for a question about a chart.\<close>

definition mentions_chart :: "string \<Rightarrow> bool" where
  "mentions_chart question =
     (includes_str (toLowerCase question) ''histogram'' \<or>
      includes_str (toLowerCase question) ''chart'')"

text \<open>
  \<open>handleReply\<close> of the second file. \<open>userInput.text.replace\<close> throws when the text is
  absent or not a string. Everything after the command test is inside one \<open>try\<close>, whose
  \<open>catch\<close> replies with the apology.
\<close>

definition handleReply_000 ::
  "env \<Rightarrow> jsval \<Rightarrow> string \<Rightarrow> jsval \<Rightarrow> state \<Rightarrow> (exn + jsval) \<times> state" where
  "handleReply_000 env userInput sessionId messageId s =
     (case get userInput ''text'' of
        Inl e \<Rightarrow> (Inl e, s)
      | Inr t \<Rightarrow>
          (case t of
             JStr txt \<Rightarrow>
               (let question = trim (replace_first ''@_user_1'' [] txt) in
                if startsWith question ''/'' then
                  (Inr JUndefined, cmdProcess_000 env question sessionId messageId s)
                else
                  (case queryFlowise_000 env question sessionId s of
                     (Inl e, s1) \<Rightarrow>
                       (case reply_000 env messageId (JStr errorText) ''text'' s1 of
                          (r, s2) \<Rightarrow> (Inr r, s2))
                   | (Inr answer, s1) \<Rightarrow>
                       if mentions_chart question then
                         (case uploadImage env ''/tmp/work_hours_histogram.png'' s1 of
                            (Inl e, s2) \<Rightarrow>
                              (case reply_000 env messageId (JStr errorText) ''text'' s2 of
                                 (r, s3) \<Rightarrow> (Inr r, s3))
                          | (Inr imageKey, s2) \<Rightarrow>
                              if truthy imageKey then
                                (case replyWithImage env messageId imageKey s2 of
                                   (Inl e, s3) \<Rightarrow>
                                     (case reply_000 env messageId (JStr errorText) ''text'' s3 of
                                        (r, s4) \<Rightarrow> (Inr r, s4))
                                 | (Inr r, s3) \<Rightarrow> (Inr r, s3))
                              else
                                (case reply_000 env messageId answer ''text'' s2 of
                                   (r, s3) \<Rightarrow> (Inr r, s3)))
                       else
                         (case reply_000 env messageId answer ''text'' s1 of
                            (r, s2) \<Rightarrow> (Inr r, s2))))
           | _ \<Rightarrow> (Inl TypeError, s)))"

section \<open>Invocations in flight\<close>

text \<open>
  The handlers of several events are in flight at once; the runtime runs one of them
  at a time, from one \<open>await\<close> to the next. The only call that comes back to the tables
  after an \<open>await\<close> is \<open>queryFlowise\<close>. A call of it that waits for the AnswerService
  holds its array and its session identifier.
\<close>

record call =
  call_history :: nat
  call_session :: string

text \<open>
  What can happen next: \<open>queryFlowise\<close> is called for a session and a question and runs
  to its \<open>await\<close>; the AnswerService settles the \<open>k\<close>-th call made (with a response, or
  \<open>None\<close> for a rejection) and that call runs to its end; \<open>cmdClear\<close> is called for a
  session.
\<close>

datatype action =
  Ask string string
| Answer nat "jsval option"
| Clear string jsval

text \<open>
  The state, and the calls made so far in order: the \<open>k\<close>-th is \<open>Some\<close> call while it
  waits, \<open>None\<close> once it has ended.
\<close>

record system =
  st :: state
  calls :: "call option list"

fun step :: "env \<Rightarrow> system \<Rightarrow> action \<Rightarrow> system" where
  "step env c (Ask sessionId question) =
     (case queryFlowise_begin question sessionId (st c) of
        (Inl e, s1) \<Rightarrow> \<lparr>st = s1, calls = calls c @ [None]\<rparr>
      | (Inr (history, body), s1) \<Rightarrow>
          \<lparr>st = s1,
           calls = calls c @ [Some \<lparr>call_history = history, call_session = sessionId\<rparr>]\<rparr>)"
| "step env c (Answer k response) =
     (if k < length (calls c) then
        (case calls c ! k of
           None \<Rightarrow> c
         | Some cl \<Rightarrow>
             \<lparr>st = snd (queryFlowise_resume (call_history cl) (call_session cl) response (st c)),
              calls = (calls c)[k := None]\<rparr>)
      else c)"
| "step env c (Clear sessionId messageId) =
     \<lparr>st = cmdClear env sessionId messageId (st c), calls = calls c\<rparr>"

definition run :: "env \<Rightarrow> system \<Rightarrow> action list \<Rightarrow> system" where
  "run env c acts = foldl (step env) c acts"

section \<open>Observations and sample runs\<close>

text \<open>The value of a property, for a value that has properties.\<close>

definition property :: "jsval \<Rightarrow> string \<Rightarrow> jsval" where
  "property v k = (case get v k of Inl e \<Rightarrow> JUndefined | Inr x \<Rightarrow> x)"

definition present :: "jsval \<Rightarrow> bool" where
  "present v = (v \<noteq> JUndefined \<and> v \<noteq> JNull)"

text \<open>\<open>result.text\<close> of a response object.\<close>

definition text_of :: "jsval \<Rightarrow> jsval" where
  "text_of result = (case get result ''text'' of Inl e \<Rightarrow> JUndefined | Inr t \<Rightarrow> t)"

text \<open>The messages \<open>reply\<close> builds: the text message, and the image message of an artifact.\<close>

definition text_message :: "jsval \<Rightarrow> string \<Rightarrow> string \<Rightarrow> message" where
  "text_message messageId c msgType =
     \<lparr>message_id = messageId, content = Text_content (formatMarkdown c), msg_type = msgType\<rparr>"

definition image_message :: "jsval \<Rightarrow> jsval \<Rightarrow> message" where
  "image_message messageId artifact =
     \<lparr>message_id = messageId, content = Image_key (property artifact ''data''),
      msg_type = ''image''\<rparr>"

definition png_images :: "jsval \<Rightarrow> jsval list \<Rightarrow> message list" where
  "png_images messageId as =
     map (image_message messageId) (filter (\<lambda>a. property a ''type'' = JStr ''png'') as)"

text \<open>Every call of the list, made in order after the calls \<open>prior\<close>, is accepted.\<close>

fun delivered :: "env \<Rightarrow> message list \<Rightarrow> message list \<Rightarrow> bool" where
  "delivered env prior [] = True"
| "delivered env prior (m # ms) =
     (lark_reply env prior m \<noteq> None \<and> delivered env (prior @ [m]) ms)"

text \<open>One text message, followed by image messages only.\<close>

definition is_text :: "message \<Rightarrow> bool" where
  "is_text m = (case content m of Text_content t \<Rightarrow> True | Image_key k \<Rightarrow> False)"

definition is_image :: "message \<Rightarrow> bool" where
  "is_image m = (case content m of Text_content t \<Rightarrow> False | Image_key k \<Rightarrow> True)"

definition text_then_images :: "message list \<Rightarrow> bool" where
  "text_then_images ms =
     (case ms of [] \<Rightarrow> False | m # rest \<Rightarrow> is_text m \<and> list_all is_image rest)"

text \<open>
  A body that reaches the branch for \<open>im.message.receive_v1\<close>, and the \<open>event_id\<close> of
  its header.
\<close>

definition is_message_event :: "jsval \<Rightarrow> bool" where
  "is_message_event params =
     (present params \<and>
      property params ''type'' \<noteq> JStr ''url_verification'' \<and>
      \<not> truthy (property params ''encrypt'') \<and>
      truthy (property params ''header'') \<and>
      property (property params ''header'') ''event_type'' = JStr ''im.message.receive_v1'')"

definition event_id :: "jsval \<Rightarrow> jsval" where
  "event_id params = property (property params ''header'') ''event_id''"

definition primitive :: "jsval \<Rightarrow> bool" where
  "primitive v = (case v of JArr xs \<Rightarrow> False | JObj kvs \<Rightarrow> False | _ \<Rightarrow> True)"

text \<open>A verification handshake, and one that carries a challenge.\<close>

definition is_handshake :: "jsval \<Rightarrow> bool" where
  "is_handshake params = (property params ''type'' = JStr ''url_verification'')"

text \<open>
  A structured body: \<open>{challenge}\<close> with a challenge in it, or an object with a
  \<open>code\<close> of 0, 1 or 2 and possibly a \<open>message\<close>.
\<close>

definition is_code :: "jsval \<Rightarrow> bool" where
  "is_code v = (v = JNum ''0'' \<or> v = JNum ''1'' \<or> v = JNum ''2'')"

definition structured :: "jsval \<Rightarrow> bool" where
  "structured r =
     (case r of
        JObj kvs \<Rightarrow>
          (case kvs of
             [(k, v)] \<Rightarrow> (k = ''challenge'' \<and> v \<noteq> JUndefined) \<or> (k = ''code'' \<and> is_code v)
           | [(k, v), (k', m)] \<Rightarrow>
               k = ''code'' \<and> is_code v \<and> k' = ''message'' \<and> (case m of JStr t \<Rightarrow> True | _ \<Rightarrow> False)
           | _ \<Rightarrow> False)
      | _ \<Rightarrow> False)"

text \<open>
  A response whose artifacts, if any, include no \<open>png\<close>: \<open>reply\<close> of src/index.js sends
  no image for it.
\<close>

definition no_png_artifact :: "jsval \<Rightarrow> bool" where
  "no_png_artifact result =
     (case property result ''artifacts'' of
        JUndefined \<Rightarrow> True
      | JArr as \<Rightarrow> list_all (\<lambda>a. present a \<and> property a ''type'' \<noteq> JStr ''png'') as
      | _ \<Rightarrow> False)"

text \<open>A call of a session is waiting for the AnswerService.\<close>

definition in_flight :: "system \<Rightarrow> string \<Rightarrow> bool" where
  "in_flight c sessionId =
     list_ex (\<lambda>co. case co of None \<Rightarrow> False | Some cl \<Rightarrow> call_session cl = sessionId) (calls c)"

text \<open>An action that is not a call of \<open>queryFlowise\<close> or \<open>cmdClear\<close> for the session.\<close>

definition foreign :: "string \<Rightarrow> action \<Rightarrow> bool" where
  "foreign sessionId a =
     (case a of
        Ask sid q \<Rightarrow> sid \<noteq> sessionId
      | Answer k response \<Rightarrow> True
      | Clear sid mid \<Rightarrow> sid \<noteq> sessionId)"

text \<open>A response with which \<open>queryFlowise\<close> returns, and whose text a later join converts.\<close>

definition answers :: "jsval \<Rightarrow> bool" where
  "answers result = (truthy (text_of result) \<and> \<not> isl (toString (text_of result)))"

text \<open>
  The exchanges of a session in a schedule in which the calls of the session do not
  overlap: \<open>w\<close> is the call of the session that waits, with its question, and \<open>n\<close> the
  number of calls made so far. The result is the list of the questions answered, each
  with its answer text, and the question still waiting at the end; it is \<open>None\<close> when the
  schedule calls \<open>queryFlowise\<close> for the session while a call of the session waits, lets
  a call of the session fail, or clears the session.
\<close>

fun dialogue ::
  "string \<Rightarrow> (nat \<times> string) option \<Rightarrow> nat \<Rightarrow> action list \<Rightarrow>
     ((string \<times> jsval) list \<times> string option) option" where
  "dialogue sessionId w n [] = Some ([], map_option snd w)"
| "dialogue sessionId w n (Ask sid q # acts) =
     (if sid = sessionId then
        (if w = None then dialogue sessionId (Some (n, q)) (Suc n) acts else None)
      else dialogue sessionId w (Suc n) acts)"
| "dialogue sessionId w n (Answer k response # acts) =
     (case w of
        None \<Rightarrow> dialogue sessionId w n acts
      | Some (k', q) \<Rightarrow>
          if k' = k then
            (case response of
               None \<Rightarrow> None
             | Some result \<Rightarrow>
                 if answers result then
                   (case dialogue sessionId None n acts of
                      None \<Rightarrow> None
                    | Some (qas, p) \<Rightarrow> Some ((q, text_of result) # qas, p))
                 else None)
          else dialogue sessionId w n acts)"
| "dialogue sessionId w n (Clear sid mid # acts) =
     (if sid = sessionId then None else dialogue sessionId w n acts)"

text \<open>The sequence \<open>[q1, a1, ..., qN, aN]\<close> of a list of exchanges.\<close>

definition interleaved :: "(string \<times> jsval) list \<Rightarrow> jsval list" where
  "interleaved qas = concat (map (\<lambda>qa. [JStr (fst qa), snd qa]) qas)"

text \<open>
  A world in which every call succeeds and the AnswerService answers \<open>re: \<close> followed
  by what it was sent; one in which the AnswerService is unreachable; a fresh process.
\<close>

definition env_up :: env where
  "env_up =
     \<lparr>LARK_APP_ID = ''cli_a1'', LARK_APP_SECRET = ''secret'',
      lark_reply = (\<lambda>prior m. Some (JObj [(''code'', JNum ''0'')])),
      flowise = (\<lambda>prior q. Some (JObj [(''text'', JStr (''re: '' @ q))])),
      JSON_parse =
        (\<lambda>v. if v = JStr ''{\"text\":\"@_user_1 hello\"}''
              then Some (JObj [(''text'', JStr ''@_user_1 hello'')])
              else if v = JStr ''{\"text\":\"/clear\"}''
              then Some (JObj [(''text'', JStr ''/clear'')])
              else None),
      existsSync = (\<lambda>p. False), image_create = (\<lambda>p. None)\<rparr>"

definition env_down :: env where
  "env_down = env_up\<lparr>flowise := (\<lambda>prior q. None)\<rparr>"

definition fresh :: state where
  "fresh =
     \<lparr>heap = (\<lambda>r. []), next_ref = 0, conversationHistories = Map.empty, processedEvents = {},
      outbox = [], asked = [], trace = []\<rparr>"

definition initial :: system where
  "initial = \<lparr>st = fresh, calls = []\<rparr>"

text \<open>
  Worlds in which the AnswerService answers with a \<open>png\<close> artifact, and with a text that
  is a number.
\<close>

definition env_png :: env where
  "env_png =
     env_up\<lparr>flowise :=
       (\<lambda>prior q. Some (JObj [(''text'', JStr ''see the chart''),
                               (''artifacts'',
                                JArr [JObj [(''type'', JStr ''png''), (''data'', JStr ''k1'')]])]))\<rparr>"

definition env_number :: env where
  "env_number = env_up\<lparr>flowise := (\<lambda>prior q. Some (JObj [(''text'', JNum ''42'')]))\<rparr>"

text \<open>
  A message event as the platform delivers it, and some bodies: a first text message, an
  image message, a text message whose content is not JSON, and the verification handshake.
\<close>

definition message_event :: "string \<Rightarrow> string \<Rightarrow> string \<Rightarrow> jsval" where
  "message_event eventId messageType cont =
     JObj [(''schema'', JStr ''2.0''),
           (''header'', JObj [(''event_id'', JStr eventId),
                              (''event_type'', JStr ''im.message.receive_v1'')]),
           (''event'',
            JObj [(''sender'', JObj [(''sender_id'', JObj [(''user_id'', JStr ''u1'')])]),
                  (''message'', JObj [(''message_id'', JStr ''om_1''), (''chat_id'', JStr ''oc_1''),
                                      (''message_type'', JStr messageType),
                                      (''content'', JStr cont)])])]"

definition hello_event :: jsval where
  "hello_event = message_event ''e1'' ''text'' ''{\"text\":\"@_user_1 hello\"}''"

definition image_event :: jsval where
  "image_event = message_event ''e2'' ''image'' ''{\"image_key\":\"img_1\"}''"

definition bad_event :: jsval where
  "bad_event = message_event ''e3'' ''text'' ''not json''"

definition handshake :: jsval where
  "handshake = JObj [(''type'', JStr ''url_verification''), (''challenge'', JStr ''abc'')]"

text \<open>An artifact of type png, and a world in which the image \<open>k1\<close> is refused.\<close>

definition png_artifact :: "string \<Rightarrow> jsval" where
  "png_artifact k = JObj [(''type'', JStr ''png''), (''data'', JStr k)]"

definition env_k1_refused :: env where
  "env_k1_refused =
     env_up\<lparr>lark_reply :=
       (\<lambda>prior m. if content m = Image_key (JStr ''k1'') then None
                   else Some (JObj [(''code'', JNum ''0'')]))\<rparr>"

text \<open>A world in which the chart file exists and its upload gives the key \<open>img_1\<close>.\<close>

definition env_chart :: env where
  "env_chart =
     env_up\<lparr>existsSync := (\<lambda>p. True),
            image_create := (\<lambda>p. Some (JObj [(''data'', JObj [(''image_key'', JStr ''img_1'')])]))\<rparr>"

text \<open>
  An image message event without \<open>event.sender\<close>, and a handshake without a challenge.
\<close>

definition no_sender_event :: jsval where
  "no_sender_event =
     JObj [(''schema'', JStr ''2.0''),
           (''header'', JObj [(''event_id'', JStr ''e4''),
                              (''event_type'', JStr ''im.message.receive_v1'')]),
           (''event'',
            JObj [(''message'', JObj [(''message_id'', JStr ''om_1''), (''chat_id'', JStr ''oc_1''),
                                      (''message_type'', JStr ''image''),
                                      (''content'', JStr ''{\"image_key\":\"img_1\"}'')])])]"

definition bare_handshake :: jsval where
  "bare_handshake = JObj [(''type'', JStr ''url_verification'')]"

section \<open>Notions for the proofs\<close>

text \<open>
  The array a call of \<open>queryFlowise\<close> for a session will hold; a response with which the
  call returns; a value a join converts; every array in use belongs to one session (the
  one whose key or whose waiting calls hold it); and what is known of a session while a
  schedule in which its calls do not overlap runs: the history before the question that
  waits, if one does.
\<close>

definition target :: "state \<Rightarrow> string \<Rightarrow> nat" where
  "target s sessionId =
     (case conversationHistories s sessionId of Some r \<Rightarrow> r | None \<Rightarrow> next_ref s)"

definition accepted :: "jsval option \<Rightarrow> bool" where
  "accepted response =
     (case response of None \<Rightarrow> False | Some result \<Rightarrow> truthy (text_of result))"

definition joinable :: "jsval \<Rightarrow> bool" where
  "joinable x = (x = JUndefined \<or> x = JNull \<or> \<not> isl (toString x))"

definition owned :: "system \<Rightarrow> bool" where
  "owned c =
     (\<exists>own. (\<forall>sid r. conversationHistories (st c) sid = Some r \<longrightarrow>
                r < next_ref (st c) \<and> own r = sid) \<and>
            (\<forall>cl. Some cl \<in> set (calls c) \<longrightarrow>
                call_history cl < next_ref (st c) \<and> own (call_history cl) = call_session cl))"

definition tracks :: "system \<Rightarrow> string \<Rightarrow> (nat \<times> string) option \<Rightarrow> jsval list \<Rightarrow> bool" where
  "tracks c sid w base =
     (list_all joinable (history_of (st c) sid) \<and>
      (case w of
         None \<Rightarrow> \<not> in_flight c sid \<and> history_of (st c) sid = base
       | Some (k, q) \<Rightarrow>
           k < length (calls c) \<and>
           (\<exists>r. calls c ! k = Some \<lparr>call_history = r, call_session = sid\<rparr> \<and>
                conversationHistories (st c) sid = Some r) \<and>
           (\<forall>j cl. j < length (calls c) \<and> j \<noteq> k \<and> calls c ! j = Some cl \<longrightarrow>
                call_session cl \<noteq> sid) \<and>
           history_of (st c) sid = base @ [JStr q]))"

section \<open>Frame lemmas\<close>

lemma reply_histories [simp]:
  "conversationHistories (reply env mid c a t s) = conversationHistories s"
  by (simp add: reply_def Let_def)

lemma reply_heap [simp]: "heap (reply env mid c a t s) = heap s"
  by (simp add: reply_def Let_def)

lemma reply_next_ref [simp]: "next_ref (reply env mid c a t s) = next_ref s"
  by (simp add: reply_def Let_def)

lemma reply_asked [simp]: "asked (reply env mid c a t s) = asked s"
  by (simp add: reply_def Let_def)

lemma reply_processed [simp]: "processedEvents (reply env mid c a t s) = processedEvents s"
  by (simp add: reply_def Let_def)

lemma reply_history_of [simp]: "history_of (reply env mid c a t s) sid = history_of s sid"
  by (simp add: history_of_def split: option.splits)

lemma reply_trace: "prefix (trace s) (trace (reply env mid c a t s))"
  by (simp add: reply_def Let_def)

lemma array_join_single [simp]: "array_join sep [JStr q] = Inr q"
  by (simp add: array_join_def)

lemma begin_state:
  "heap (snd (queryFlowise_begin q sid s)) = (heap s)(target s sid := history_of s sid @ [JStr q])"
  "conversationHistories (snd (queryFlowise_begin q sid s)) =
     (conversationHistories s)(sid \<mapsto> target s sid)"
  "next_ref (snd (queryFlowise_begin q sid s)) =
     (if conversationHistories s sid = None then Suc (next_ref s) else next_ref s)"
  "processedEvents (snd (queryFlowise_begin q sid s)) = processedEvents s"
  "outbox (snd (queryFlowise_begin q sid s)) = outbox s"
  by (auto simp: queryFlowise_begin_def history_array_def target_def history_of_def Let_def
      split: option.splits sum.splits)

lemma begin_result:
  "fst (queryFlowise_begin q sid s) =
     (case array_join '' '' (history_of s sid @ [JStr q]) of
        Inl e \<Rightarrow> Inl e
      | Inr body \<Rightarrow> Inr (target s sid, body))"
  "asked (snd (queryFlowise_begin q sid s)) =
     (case array_join '' '' (history_of s sid @ [JStr q]) of
        Inl e \<Rightarrow> asked s
      | Inr body \<Rightarrow> asked s @ [body])"
  by (auto simp: queryFlowise_begin_def history_array_def target_def history_of_def Let_def
      split: option.splits sum.splits)

lemma begin_trace: "prefix (trace s) (trace (snd (queryFlowise_begin q sid s)))"
  by (auto simp: queryFlowise_begin_def history_array_def Let_def
      split: option.splits sum.splits)

lemma begin_history_of [simp]:
  "history_of (snd (queryFlowise_begin q sid s)) sid = history_of s sid @ [JStr q]"
  by (simp add: history_of_def [of "snd _"] begin_state)

lemma accepted_Some: "accepted (Some result) = truthy (text_of result)"
  by (simp add: accepted_def)

lemma resume_accepted:
  assumes "accepted response"
  shows "\<exists>result. response = Some result \<and>
           queryFlowise_resume r sid response s =
             (Inr result,
              s\<lparr>heap := (heap s)(r := heap s r @ [text_of result]),
                conversationHistories := (conversationHistories s)(sid \<mapsto> r),
                trace := trace s @ [Stored sid]\<rparr>)"
  using assms
  by (auto simp: accepted_def queryFlowise_resume_def text_of_def split: option.splits sum.splits)

lemma resume_refused:
  assumes "\<not> accepted response"
  shows "isl (fst (queryFlowise_resume r sid response s)) \<and>
         snd (queryFlowise_resume r sid response s) = s"
  using assms
  by (auto simp: accepted_def queryFlowise_resume_def text_of_def split: option.splits sum.splits)

lemma resume_frame [simp]:
  "processedEvents (snd (queryFlowise_resume r sid response s)) = processedEvents s"
  "outbox (snd (queryFlowise_resume r sid response s)) = outbox s"
  "asked (snd (queryFlowise_resume r sid response s)) = asked s"
  "next_ref (snd (queryFlowise_resume r sid response s)) = next_ref s"
  by (auto simp: queryFlowise_resume_def split: option.splits sum.splits)

lemma resume_trace: "prefix (trace s) (trace (snd (queryFlowise_resume r sid response s)))"
  by (auto simp: queryFlowise_resume_def split: option.splits sum.splits)

text \<open>The call that runs alone, in one piece.\<close>

lemma queryFlowise_alone:
  "queryFlowise env q sid s =
     (case array_join '' '' (history_of s sid @ [JStr q]) of
        Inl e \<Rightarrow> (Inl e, snd (queryFlowise_begin q sid s))
      | Inr body \<Rightarrow>
          queryFlowise_resume (target s sid) sid (flowise env (asked s) body)
            (snd (queryFlowise_begin q sid s)))"
  using begin_result(1) [of q sid s]
  by (cases "queryFlowise_begin q sid s") (auto simp: queryFlowise_def split: sum.splits)

lemma queryFlowise_frame [simp]:
  "outbox (snd (queryFlowise env q sid s)) = outbox s"
  "processedEvents (snd (queryFlowise env q sid s)) = processedEvents s"
  by (simp_all add: queryFlowise_alone begin_state split: sum.splits)

lemma queryFlowise_asked:
  "asked (snd (queryFlowise env q sid s)) = asked (snd (queryFlowise_begin q sid s))"
  by (simp add: queryFlowise_alone split: sum.splits)

lemma queryFlowise_trace: "prefix (trace s) (trace (snd (queryFlowise env q sid s)))"
proof -
  have "prefix (trace (snd (queryFlowise_begin q sid s))) (trace (snd (queryFlowise env q sid s)))"
    by (simp add: queryFlowise_alone resume_trace split: sum.splits)
  with begin_trace [of s q sid] show ?thesis
    by (rule prefix_order.trans)
qed

lemma queryFlowise_Inr_text:
  assumes "queryFlowise env q sid s = (Inr res, s1)"
  shows "truthy (text_of res)"
proof (cases "array_join '' '' (history_of s sid @ [JStr q])")
  case (Inl e)
  with assms show ?thesis by (simp add: queryFlowise_alone)
next
  case (Inr body)
  let ?resp = "flowise env (asked s) body"
  from assms Inr have r: "queryFlowise_resume (target s sid) sid ?resp
      (snd (queryFlowise_begin q sid s)) = (Inr res, s1)"
    by (simp add: queryFlowise_alone)
  show ?thesis
  proof (cases "accepted ?resp")
    case True
    from resume_accepted [OF True, of "target s sid" sid "snd (queryFlowise_begin q sid s)"] r True
    show ?thesis by (auto simp: accepted_def)
  next
    case False
    from resume_refused [OF False, of "target s sid" sid "snd (queryFlowise_begin q sid s)"] r
    show ?thesis by simp
  qed
qed

lemma get_present: "present v \<Longrightarrow> get v k = Inr (property v k)"
  by (cases v) (simp_all add: present_def property_def)

lemma truthy_present: "truthy v \<Longrightarrow> present v"
  by (cases v) (simp_all add: present_def)

lemma send_artifacts_spec:
  assumes "list_all present as"
  shows "prefix (send_artifacts env prior mid as) (png_images mid as) \<and>
         delivered env prior (butlast (send_artifacts env prior mid as)) \<and>
         (send_artifacts env prior mid as = png_images mid as \<or>
          \<not> delivered env prior (send_artifacts env prior mid as))"
  using assms
proof (induction as arbitrary: prior)
  case Nil
  then show ?case by (simp add: png_images_def)
next
  case (Cons a as)
  then have a: "present a" and as: "list_all present as" by simp_all
  note IH = Cons.IH [OF as]
  show ?case
  proof (cases "property a ''type'' = JStr ''png''")
    case False
    with a IH [of prior] show ?thesis
      by (simp add: get_present png_images_def)
  next
    case True
    let ?m = "image_message mid a"
    show ?thesis
    proof (cases "lark_reply env prior ?m")
      case None
      with a True show ?thesis
        by (simp add: get_present png_images_def image_message_def Let_def)
    next
      case (Some r)
      with a True IH [of "prior @ [?m]"] show ?thesis
        by (auto simp: get_present png_images_def image_message_def Let_def)
    qed
  qed
qed

lemma question_of_Some:
  assumes "question_of u = Inr (Some q)"
  shows "\<exists>tx. get u ''text'' = Inr (JStr tx) \<and> q = trim (replace_first ''@_user_1'' [] tx)"
  using assms
  by (auto simp: question_of_def bindE_def split: sum.splits if_splits jsval.splits)

lemma queryFlowise_000_eq:
  "queryFlowise_000 env q sid s =
     (case queryFlowise env q sid s of
        (Inl e, s1) \<Rightarrow> (Inl e, s1)
      | (Inr r, s1) \<Rightarrow> (Inr (text_of r), s1))"
  by (simp add: queryFlowise_000_def queryFlowise_def queryFlowise_resume_def
      queryFlowise_resume_000_def text_of_def split: prod.splits option.splits sum.splits)

lemma reply_000_eq: "snd (reply_000 env mid c t s) = reply env mid c JUndefined t s"
  by (simp add: reply_000_def reply_def Let_def split: jsval.splits option.splits)

lemma replyWithImage_frame [simp]:
  "conversationHistories (snd (replyWithImage env mid k s)) = conversationHistories s"
  "heap (snd (replyWithImage env mid k s)) = heap s"
  "asked (snd (replyWithImage env mid k s)) = asked s"
  by (simp_all add: replyWithImage_def Let_def split: option.splits)

lemma uploadImage_frame [simp]:
  "conversationHistories (snd (uploadImage env p s)) = conversationHistories s"
  "heap (snd (uploadImage env p s)) = heap s"
  "asked (snd (uploadImage env p s)) = asked s"
  "outbox (snd (uploadImage env p s)) = outbox s"
  by (simp_all add: uploadImage_def split: option.splits)

lemma send_artifacts_no_png:
  "list_all (\<lambda>a. present a \<and> property a ''type'' \<noteq> JStr ''png'') as \<Longrightarrow>
     send_artifacts env prior mid as = []"
  by (induction as arbitrary: prior) (simp_all add: get_present)

lemma reply_no_png:
  assumes "list_all (\<lambda>a. present a \<and> property a ''type'' \<noteq> JStr ''png'') as"
  shows "reply env mid c (JArr as) t s = reply env mid c JUndefined t s"
  using assms
  by (simp add: reply_def Let_def send_artifacts_no_png split: jsval.splits option.splits)

text \<open>What the two functions do to the tables and the requests, for a question.\<close>

lemma handleReply_tables:
  assumes "question_of u = Inr (Some q)" and "q \<noteq> []" and "\<not> startsWith q ''/''"
  shows "conversationHistories (snd (handleReply env u sid mid s)) =
           conversationHistories (snd (queryFlowise env q sid s)) \<and>
         heap (snd (handleReply env u sid mid s)) = heap (snd (queryFlowise env q sid s)) \<and>
         asked (snd (handleReply env u sid mid s)) = asked (snd (queryFlowise env q sid s))"
  using assms
  by (simp add: handleReply_def split: sum.splits prod.splits)

lemma handleReply_000_tables:
  assumes "question_of u = Inr (Some q)" and "\<not> startsWith q ''/''"
  shows "conversationHistories (snd (handleReply_000 env u sid mid s)) =
           conversationHistories (snd (queryFlowise env q sid s)) \<and>
         heap (snd (handleReply_000 env u sid mid s)) = heap (snd (queryFlowise env q sid s)) \<and>
         asked (snd (handleReply_000 env u sid mid s)) = asked (snd (queryFlowise env q sid s))"
proof -
  from question_of_Some [OF assms(1)] obtain tx where
    t: "get u ''text'' = Inr (JStr tx)" and q: "q = trim (replace_first ''@_user_1'' [] tx)"
    by blast
  obtain r s1 where qf: "queryFlowise env q sid s = (r, s1)"
    by (cases "queryFlowise env q sid s")
  from t q [symmetric] assms(2) qf show ?thesis
    by (simp add: handleReply_000_def Let_def queryFlowise_000_eq case_prod_beta reply_000_eq
        split: sum.splits)
qed

lemma handleReply_command_tables:
  assumes "question_of u = Inr (Some q)" and "q \<noteq> []" and "startsWith q ''/''"
  shows "conversationHistories (snd (handleReply_000 env u sid mid s)) =
           conversationHistories (snd (handleReply env u sid mid s)) \<and>
         heap (snd (handleReply_000 env u sid mid s)) = heap (snd (handleReply env u sid mid s)) \<and>
         asked (snd (handleReply_000 env u sid mid s)) = asked (snd (handleReply env u sid mid s))"
proof -
  from question_of_Some [OF assms(1)] obtain tx where
    t: "get u ''text'' = Inr (JStr tx)" and q: "q = trim (replace_first ''@_user_1'' [] tx)"
    by blast
  from t q [symmetric] assms show ?thesis
    by (simp add: handleReply_000_def handleReply_def Let_def cmdProcess_def cmdProcess_000_def
        cmdHelp_def cmdHelp_000_def cmdClear_def cmdClear_000_def reply_000_eq)
qed

lemma handleReply_clear_same:
  assumes "question_of u = Inr (Some ''/clear'')"
  shows "snd (handleReply_000 env u sid mid s) = snd (handleReply env u sid mid s)"
proof -
  from question_of_Some [OF assms(1)] obtain tx where
    t: "get u ''text'' = Inr (JStr tx)"
    and q: "''/clear'' = trim (replace_first ''@_user_1'' [] tx)"
    by blast
  have "startsWith ''/clear'' ''/''" by (simp add: startsWith_def)
  with t q [symmetric] assms show ?thesis
    by (simp add: handleReply_000_def handleReply_def Let_def cmdProcess_def cmdProcess_000_def
        cmdClear_def cmdClear_000_def reply_000_eq)
qed

lemma handleReply_question_same:
  assumes "question_of u = Inr (Some q)" and "q \<noteq> []" and "\<not> startsWith q ''/''"
    and "\<not> mentions_chart q"
    and "case fst (queryFlowise env q sid s) of Inl e \<Rightarrow> True | Inr r \<Rightarrow> no_png_artifact r"
  shows "snd (handleReply_000 env u sid mid s) = snd (handleReply env u sid mid s)"
proof -
  from question_of_Some [OF assms(1)] obtain tx where
    t: "get u ''text'' = Inr (JStr tx)" and q: "q = trim (replace_first ''@_user_1'' [] tx)"
    by blast
  obtain r s1 where qf: "queryFlowise env q sid s = (r, s1)"
    by (cases "queryFlowise env q sid s")
  show ?thesis
  proof (cases r)
    case (Inl e)
    with t q [symmetric] assms(1-4) qf show ?thesis
      using reply_000_eq [of env mid "JStr errorText" "''text''" s1]
      by (simp add: handleReply_000_def handleReply_def Let_def queryFlowise_000_eq
          case_prod_beta)
  next
    case (Inr res)
    with qf assms(5) have np: "no_png_artifact res" by simp
    from qf Inr have "truthy (text_of res)"
      by (auto dest: queryFlowise_Inr_text)
    then have pr: "present res"
      by (cases res) (simp_all add: present_def text_of_def)
    have tv: "get res ''text'' = Inr (text_of res)"
      using pr by (cases res) (simp_all add: present_def text_of_def)
    have arts: "reply env mid (text_of res)
        (if property res ''artifacts'' = JUndefined then JArr [] else property res ''artifacts'')
        ''text'' s1 = reply env mid (text_of res) JUndefined ''text'' s1"
    proof (cases "property res ''artifacts''")
      case JUndefined
      then show ?thesis
        using reply_no_png [of "[]" env mid "text_of res" "''text''" s1] by simp
    next
      case (JArr as)
      with np have "list_all (\<lambda>a. present a \<and> property a ''type'' \<noteq> JStr ''png'') as"
        by (simp add: no_png_artifact_def)
      with JArr show ?thesis
        using reply_no_png [of as env mid "text_of res" "''text''" s1] by simp
    qed (use np in \<open>simp_all add: no_png_artifact_def\<close>)
    from t q [symmetric] assms(1-4) qf Inr tv arts show ?thesis
      using reply_000_eq [of env mid "text_of res" "''text''" s1]
      by (simp add: handleReply_000_def handleReply_def Let_def queryFlowise_000_eq
          get_present [OF pr] bindE_def case_prod_beta)
  qed
qed

section \<open>Webhook lemmas\<close>

lemma webhook_message:
  assumes "is_message_event params"
  shows "webhook env params s = message_received env params (event_id params) s"
proof -
  from assms have p: "present params" and h: "present (property params ''header'')"
    by (simp_all add: is_message_event_def truthy_present)
  from assms show ?thesis
    by (simp add: webhook_def get_present [OF p] get_present [OF h] is_message_event_def
        event_id_def bindE_def)
qed

lemma is_code_simps: "is_code (JNum ''0'')" "is_code (JNum ''1'')" "is_code (JNum ''2'')"
  by (simp_all add: is_code_def)

lemma structured_challenge: "c \<noteq> JUndefined \<Longrightarrow> structured (JObj [(''challenge'', c)])"
  by (simp add: structured_def)

lemma structured_code: "is_code v \<Longrightarrow> structured (JObj [(''code'', v)])"
  by (simp add: structured_def)

lemma structured_code_message:
  "is_code v \<Longrightarrow> structured (JObj [(''code'', v), (''message'', JStr m)])"
  by (simp add: structured_def)

lemmas structured_intros =
  structured_code [OF is_code_simps(1)] structured_code [OF is_code_simps(3)]
  structured_code_message [OF is_code_simps(1)] structured_code_message [OF is_code_simps(2)]

lemma res_json_code [simp]: "res_json (JObj [(''code'', JNum n)]) = JObj [(''code'', JNum n)]"
  by (simp add: res_json_def)

lemma res_json_code_message [simp]:
  "res_json (JObj [(''code'', JNum n), (''message'', JStr m)]) =
     JObj [(''code'', JNum n), (''message'', JStr m)]"
  by (simp add: res_json_def)

lemma res_json_challenge [simp]:
  "c \<noteq> JUndefined \<Longrightarrow> res_json (JObj [(''challenge'', c)]) = JObj [(''challenge'', c)]"
  by (simp add: res_json_def)

lemma res_json_duplicate [simp]: "res_json duplicateResponse = duplicateResponse"
  by (simp add: duplicateResponse_def)

lemma structured_validateAppConfig: "structured (res_json (validateAppConfig env))"
  by (simp add: validateAppConfig_def structured_intros)

lemma webhook_other:
  assumes "present params" and "\<not> is_message_event params"
    and "is_handshake params \<longrightarrow> property params ''challenge'' \<noteq> JUndefined"
  shows "\<exists>r. webhook env params s = (Inr r, s) \<and> structured r"
proof (cases "truthy (property params ''header'')")
  case True
  then have h: "present (property params ''header'')" by (rule truthy_present)
  from assms True show ?thesis
    by (auto simp: webhook_def get_present [OF assms(1)] get_present [OF h] is_message_event_def
        is_handshake_def bindE_def structured_intros structured_challenge)
next
  case False
  with assms show ?thesis
    by (auto simp: webhook_def get_present [OF assms(1)] is_message_event_def is_handshake_def
        structured_intros structured_challenge structured_validateAppConfig)
qed

lemma formatMarkdown_only_text:
  "formatMarkdown ''Only text messages are supported.'' = ''Only text messages are supported.''"
  by code_simp

lemma reply_plain:
  "outbox (reply env mid (JStr c) JUndefined t s) = outbox s @ [[text_message mid c t]]"
  by (simp add: reply_def Let_def text_message_def split: option.splits)

lemma send_artifacts_images: "list_all is_image (send_artifacts env prior mid as)"
  by (induction as arbitrary: prior)
    (auto simp: is_image_def Let_def split: sum.splits option.splits)

lemma reply_shape:
  "\<exists>attempts. outbox (reply env mid c a t s) = outbox s @ [attempts] \<and>
     (attempts = [] \<or> text_then_images attempts)"
  by (auto simp: reply_def Let_def text_then_images_def is_text_def send_artifacts_images
      split: jsval.splits option.splits sum.splits)

lemma cmdProcess_shape:
  "\<exists>attempts. outbox (cmdProcess env action sid mid s) = outbox s @ [attempts] \<and>
     (attempts = [] \<or> text_then_images attempts)"
  using reply_shape [of env mid "JStr helpText" "JStr ''Help''" "''text''" s]
    reply_shape [of env mid "JStr clearedText" JUndefined "''text''"
      "s\<lparr>conversationHistories := (conversationHistories s)(sid := None),
         trace := trace s @ [Deleted sid]\<rparr>"]
  by (simp add: cmdProcess_def cmdHelp_def cmdClear_def)

lemma cmdProcess_frame [simp]:
  "processedEvents (cmdProcess env action sid mid s) = processedEvents s"
  by (simp add: cmdProcess_def cmdHelp_def cmdClear_def)

lemma cmdProcess_trace: "prefix (trace s) (trace (cmdProcess env action sid mid s))"
proof -
  let ?s' = "s\<lparr>conversationHistories := (conversationHistories s)(sid := None),
               trace := trace s @ [Deleted sid]\<rparr>"
  have "prefix (trace s @ [Deleted sid])
      (trace (reply env mid (JStr clearedText) JUndefined ''text'' ?s'))"
    using reply_trace [of ?s' env mid "JStr clearedText" JUndefined "''text''"] by simp
  then have "prefix (trace s) (trace (reply env mid (JStr clearedText) JUndefined ''text'' ?s'))"
    by (rule append_prefixD)
  then show ?thesis
    by (simp add: cmdProcess_def cmdHelp_def cmdClear_def reply_trace)
qed

lemma handleReply_effects:
  "processedEvents (snd (handleReply env u sid mid s)) = processedEvents s \<and>
   prefix (trace s) (trace (snd (handleReply env u sid mid s))) \<and>
   (if isl (fst (handleReply env u sid mid s)) then outbox (snd (handleReply env u sid mid s)) = outbox s
    else (\<exists>attempts. outbox (snd (handleReply env u sid mid s)) = outbox s @ [attempts] \<and>
            (attempts = [] \<or> text_then_images attempts)))"
proof (cases "question_of u")
  case (Inl e)
  then show ?thesis by (simp add: handleReply_def)
next
  case (Inr qo)
  show ?thesis
  proof (cases qo)
    case None
    with Inr show ?thesis
      by (simp add: handleReply_def reply_trace reply_shape)
  next
    case (Some q)
    obtain r s1 where q: "queryFlowise env q sid s = (r, s1)"
      by (cases "queryFlowise env q sid s")
    then have s1: "outbox s1 = outbox s" "processedEvents s1 = processedEvents s"
      "prefix (trace s) (trace s1)"
      using queryFlowise_frame [of env q sid s] queryFlowise_trace [of s env q sid] by simp_all
    have tr: "prefix (trace s) (trace (reply env mid c a t s1))" for c a t
      using s1(3) reply_trace [of s1 env mid c a t] by (rule prefix_order.trans)
    have sh: "\<exists>attempts. outbox (reply env mid c a t s1) = outbox s @ [attempts] \<and>
        (attempts = [] \<or> text_then_images attempts)" for c a t
      using reply_shape [of env mid c a t s1] s1(1) by simp
    from Inr Some q s1 show ?thesis
      by (simp add: handleReply_def reply_trace reply_shape cmdProcess_trace cmdProcess_shape
          tr sh split: sum.splits prod.splits)
  qed
qed

lemma handle_message_effects:
  "processedEvents (snd (handle_message env params mid sid mt s)) = processedEvents s \<and>
   prefix (trace s) (trace (snd (handle_message env params mid sid mt s))) \<and>
   (if isl (fst (handle_message env params mid sid mt s))
    then outbox (snd (handle_message env params mid sid mt s)) = outbox s
    else (\<exists>attempts. outbox (snd (handle_message env params mid sid mt s)) = outbox s @ [attempts] \<and>
            (attempts = [] \<or> text_then_images attempts)))"
proof (cases "mt \<noteq> JStr ''text''")
  case True
  then show ?thesis
    by (simp add: handle_message_def reply_trace reply_shape)
next
  case False
  show ?thesis
  proof (cases "message_content params")
    case (Inl e)
    with False show ?thesis by (simp add: handle_message_def)
  next
    case (Inr c)
    show ?thesis
    proof (cases "JSON_parse env c")
      case None
      with False Inr show ?thesis by (simp add: handle_message_def)
    next
      case (Some u)
      obtain r s2 where h: "handleReply env u sid mid s = (r, s2)"
        by (cases "handleReply env u sid mid s")
      with handleReply_effects [of env u sid mid s] False Inr Some show ?thesis
        by (cases r) (simp_all add: handle_message_def)
    qed
  qed
qed

lemma has_primitive: "primitive v \<Longrightarrow> has S v = (v \<in> S)"
  by (cases v) (simp_all add: primitive_def has_def)

text \<open>
  \<open>handleReply\<close> for a question, when nothing else runs while it waits, is its first
  part followed by its second.
\<close>

lemma handleReply_alone:
  assumes "question_of userInput = Inr (Some q)" and "q \<noteq> []" and "\<not> startsWith q ''/''"
  shows "handleReply env userInput sid mid s =
     (case queryFlowise_begin q sid s of
        (Inl e, s1) \<Rightarrow> (Inr JUndefined, reply env mid (JStr errorText) JUndefined ''text'' s1)
      | (Inr (history, body), s1) \<Rightarrow>
          handleReply_resume env history sid mid (flowise env (asked s) body) s1)"
  using assms
  by (simp add: handleReply_def handleReply_resume_def queryFlowise_def
      split: sum.splits prod.splits)

lemma handleReply_resume_shape:
  "fst (handleReply_resume env history sid mid response s) = Inr JUndefined \<and>
   (\<exists>attempts. outbox (snd (handleReply_resume env history sid mid response s)) =
        outbox s @ [attempts] \<and> (attempts = [] \<or> text_then_images attempts))"
proof -
  obtain r s1 where q: "queryFlowise_resume history sid response s = (r, s1)"
    by (cases "queryFlowise_resume history sid response s")
  have o: "outbox s1 = outbox s"
    using resume_frame(2) [of history sid response s] q by simp
  show ?thesis
    using reply_shape [of env mid _ _ "''text''" s1] q o
    by (simp add: handleReply_resume_def split: sum.splits prod.splits)
qed

section \<open>Schedule lemmas\<close>

lemma in_flight_iff:
  "in_flight c sid \<longleftrightarrow> (\<exists>cl. Some cl \<in> set (calls c) \<and> call_session cl = sid)"
  by (auto simp: in_flight_def list_ex_iff split: option.splits)

lemma collect_Inr:
  "list_all (\<lambda>r. \<not> isl r) rs \<Longrightarrow> \<exists>xs. collect rs = Inr xs"
proof (induction rs)
  case Nil
  then show ?case by simp
next
  case (Cons r rs)
  then obtain x where "r = Inr x" by (cases r) simp_all
  with Cons show ?case by auto
qed

lemma array_join_joinable:
  assumes "list_all joinable xs"
  shows "\<exists>body. array_join sep xs = Inr body"
proof -
  have "list_all (\<lambda>r. \<not> isl r)
      (map (\<lambda>x. if x = JUndefined \<or> x = JNull then Inr [] else toString x) xs)"
    using assms by (auto simp: list_all_iff joinable_def)
  from collect_Inr [OF this] show ?thesis
    by (auto simp: array_join_def)
qed

lemma run_Nil [simp]: "run env c [] = c"
  by (simp add: run_def)

lemma run_Cons [simp]: "run env c (a # acts) = run env (step env c a) acts"
  by (simp add: run_def)

lemma run_append: "run env c (xs @ ys) = run env (run env c xs) ys"
  by (simp add: run_def)

lemma cmdClear_state [simp]:
  "conversationHistories (cmdClear env sid mid s) = (conversationHistories s)(sid := None)"
  "heap (cmdClear env sid mid s) = heap s"
  "next_ref (cmdClear env sid mid s) = next_ref s"
  "asked (cmdClear env sid mid s) = asked s"
  by (simp_all add: cmdClear_def)

lemma resume_state:
  "conversationHistories (snd (queryFlowise_resume r sid response s)) =
     (if accepted response then (conversationHistories s)(sid \<mapsto> r) else conversationHistories s)"
  "heap (snd (queryFlowise_resume r sid response s)) =
     (if accepted response then (heap s)(r := heap s r @ [text_of (the response)]) else heap s)"
proof -
  show "conversationHistories (snd (queryFlowise_resume r sid response s)) =
     (if accepted response then (conversationHistories s)(sid \<mapsto> r) else conversationHistories s)"
    using resume_accepted [of response r sid s] resume_refused [of response r sid s]
    by (cases "accepted response") auto
  show "heap (snd (queryFlowise_resume r sid response s)) =
     (if accepted response then (heap s)(r := heap s r @ [text_of (the response)]) else heap s)"
    using resume_accepted [of response r sid s] resume_refused [of response r sid s]
    by (cases "accepted response") auto
qed

text \<open>The calls after a step.\<close>

lemma calls_Ask:
  "calls (step env c (Ask sid q)) =
     calls c @ [case array_join '' '' (history_of (st c) sid @ [JStr q]) of
                  Inl e \<Rightarrow> None
                | Inr body \<Rightarrow> Some \<lparr>call_history = target (st c) sid, call_session = sid\<rparr>]"
  "st (step env c (Ask sid q)) = snd (queryFlowise_begin q sid (st c))"
  using begin_result(1) [of q sid "st c"]
  by (cases "queryFlowise_begin q sid (st c)"; auto split: sum.splits)+

lemma owned_initial: "owned initial"
  by (simp add: owned_def initial_def fresh_def)

lemma owned_step:
  assumes "owned c"
  shows "owned (step env c a)"
proof -
  from assms obtain own where
    m1: "\<And>sid r. conversationHistories (st c) sid = Some r \<Longrightarrow> r < next_ref (st c)"
    and m2: "\<And>sid r. conversationHistories (st c) sid = Some r \<Longrightarrow> own r = sid"
    and p1: "\<And>cl. Some cl \<in> set (calls c) \<Longrightarrow> call_history cl < next_ref (st c)"
    and p2: "\<And>cl. Some cl \<in> set (calls c) \<Longrightarrow> own (call_history cl) = call_session cl"
    unfolding owned_def by blast
  show ?thesis
  proof (cases a)
    case (Ask sid q)
    let ?own = "own(target (st c) sid := sid)"
    have goal: "(\<forall>sid' r. conversationHistories (st (step env c a)) sid' = Some r \<longrightarrow>
              r < next_ref (st (step env c a)) \<and> ?own r = sid') \<and>
          (\<forall>cl. Some cl \<in> set (calls (step env c a)) \<longrightarrow>
              call_history cl < next_ref (st (step env c a)) \<and>
              ?own (call_history cl) = call_session cl)"
    proof (cases "conversationHistories (st c) sid")
      case None
      then have t: "target (st c) sid = next_ref (st c)"
        by (simp add: target_def)
      have "r \<noteq> next_ref (st c)" if "conversationHistories (st c) sid' = Some r" for sid' r
        using m1 [OF that] by simp
      moreover have "call_history cl \<noteq> next_ref (st c)" if "Some cl \<in> set (calls c)" for cl
        using p1 [OF that] by simp
      ultimately show ?thesis
        using None t m1 m2 p1 p2 unfolding Ask calls_Ask
        by (auto simp: begin_state less_Suc_eq split: sum.splits if_splits)
    next
      case (Some r0)
      then have t: "target (st c) sid = r0"
        by (simp add: target_def)
      from m2 [OF Some] have "own(r0 := sid) = own"
        by auto
      with Some t m1 m2 p1 p2 show ?thesis
        unfolding Ask calls_Ask
        by (auto simp: begin_state split: sum.splits if_splits)
    qed
    then show ?thesis
      unfolding owned_def by blast
  next
    case (Answer k response)
    show ?thesis
    proof (cases "k < length (calls c) \<and> calls c ! k \<noteq> None")
      case False
      with Answer assms show ?thesis by (auto split: option.splits)
    next
      case True
      then obtain cl where cl: "calls c ! k = Some cl" and k: "k < length (calls c)"
        by auto
      then have in_set: "Some cl \<in> set (calls c)"
        by (metis nth_mem)
      have sub: "Some cl' \<in> set ((calls c)[k := None]) \<Longrightarrow> Some cl' \<in> set (calls c)" for cl'
        by (metis set_update_subset_insert insert_iff option.distinct(1) subsetD)
      have "(\<forall>sid' r. conversationHistories (st (step env c a)) sid' = Some r \<longrightarrow>
                r < next_ref (st (step env c a)) \<and> own r = sid') \<and>
            (\<forall>cl'. Some cl' \<in> set (calls (step env c a)) \<longrightarrow>
                call_history cl' < next_ref (st (step env c a)) \<and>
                own (call_history cl') = call_session cl')"
        using m1 m2 p1 [OF in_set] p2 [OF in_set] p1 p2 sub cl k unfolding Answer
        by (auto simp: resume_state split: if_splits)
      then show ?thesis
        unfolding owned_def by blast
    qed
  next
    case (Clear sid mid)
    have "(\<forall>sid' r. conversationHistories (st (step env c a)) sid' = Some r \<longrightarrow>
              r < next_ref (st (step env c a)) \<and> own r = sid') \<and>
          (\<forall>cl. Some cl \<in> set (calls (step env c a)) \<longrightarrow>
              call_history cl < next_ref (st (step env c a)) \<and>
              own (call_history cl) = call_session cl)"
      using m1 m2 p1 p2 unfolding Clear by (auto split: if_splits)
    then show ?thesis
      unfolding owned_def by blast
  qed
qed

lemma owned_run: "owned c \<Longrightarrow> owned (run env c acts)"
  by (induction acts arbitrary: c) (simp_all add: owned_step)

lemma step_Answer:
  assumes "k < length (calls c)" and "calls c ! k = Some cl"
  shows "st (step env c (Answer k response)) =
           snd (queryFlowise_resume (call_history cl) (call_session cl) response (st c))"
    and "calls (step env c (Answer k response)) = (calls c)[k := None]"
  using assms by simp_all

lemma step_Answer_idle:
  assumes "\<not> (k < length (calls c) \<and> calls c ! k \<noteq> None)"
  shows "step env c (Answer k response) = c"
  using assms by (auto split: option.splits)

lemma step_Clear:
  "st (step env c (Clear sid mid)) = cmdClear env sid mid (st c)"
  "calls (step env c (Clear sid mid)) = calls c"
  by simp_all

declare step.simps [simp del]

lemma owned_target:
  assumes "owned c" and "conversationHistories (st c) sid = Some r" and "sid' \<noteq> sid"
  shows "target (st c) sid' \<noteq> r"
proof -
  from assms(1) obtain own where
    m: "\<And>sid r. conversationHistories (st c) sid = Some r \<Longrightarrow> r < next_ref (st c) \<and> own r = sid"
    unfolding owned_def by blast
  show ?thesis
  proof (cases "conversationHistories (st c) sid'")
    case None
    with m [OF assms(2)] show ?thesis by (simp add: target_def)
  next
    case (Some r')
    with m [OF assms(2)] m [OF Some] assms(3) show ?thesis by (auto simp: target_def)
  qed
qed

lemma owned_call:
  assumes "owned c" and "conversationHistories (st c) sid = Some r"
    and "Some cl \<in> set (calls c)" and "call_session cl \<noteq> sid"
  shows "call_history cl \<noteq> r"
  using assms unfolding owned_def by metis

lemma foreign_begin:
  assumes "owned c" and "sid' \<noteq> sid"
  shows "conversationHistories (snd (queryFlowise_begin q sid' (st c))) sid =
           conversationHistories (st c) sid \<and>
         history_of (snd (queryFlowise_begin q sid' (st c))) sid = history_of (st c) sid"
proof (cases "conversationHistories (st c) sid")
  case None
  with assms(2) show ?thesis
    by (simp add: history_of_def begin_state)
next
  case (Some r)
  from owned_target [OF assms(1) Some assms(2)] Some assms(2) show ?thesis
    by (simp add: history_of_def begin_state)
qed

lemma foreign_resume:
  assumes "owned c" and "Some cl \<in> set (calls c)" and "call_session cl \<noteq> sid"
  shows "conversationHistories
           (snd (queryFlowise_resume (call_history cl) (call_session cl) response (st c))) sid =
           conversationHistories (st c) sid \<and>
         history_of
           (snd (queryFlowise_resume (call_history cl) (call_session cl) response (st c))) sid =
           history_of (st c) sid"
proof (cases "conversationHistories (st c) sid")
  case None
  with assms(3) show ?thesis
    by (simp add: history_of_def resume_state)
next
  case (Some r)
  from owned_call [OF assms(1) Some assms(2,3)] Some assms(3) show ?thesis
    by (simp add: history_of_def resume_state)
qed

lemma foreign_clear:
  assumes "sid' \<noteq> sid"
  shows "conversationHistories (cmdClear env sid' mid s) sid = conversationHistories s sid \<and>
         history_of (cmdClear env sid' mid s) sid = history_of s sid"
  using assms by (simp add: history_of_def split: option.splits)

text \<open>A step that is none of the session's keeps the session as it is.\<close>

lemma nth_update_None:
  "j < length xs \<Longrightarrow> xs[k := None] ! j = Some cl \<Longrightarrow> xs ! j = Some cl"
  by (cases "j = k") simp_all

lemma set_update_None: "Some cl \<in> set (xs[k := None]) \<Longrightarrow> Some cl \<in> set xs"
  by (metis set_update_subset_insert insert_iff option.distinct(1) subsetD)

lemma tracks_Ask_other:
  assumes "owned c" and "tracks c sid w base" and "sid' \<noteq> sid"
  shows "tracks (step env c (Ask sid' q)) sid w base"
proof -
  note f = foreign_begin [OF assms(1,3), of q]
  show ?thesis
  proof (cases w)
    case None
    with assms(2,3) f show ?thesis
      by (auto simp: tracks_def calls_Ask in_flight_iff split: sum.splits)
  next
    case (Some kq)
    obtain k q0 where kq: "kq = (k, q0)" by (cases kq)
    with Some assms(2,3) f show ?thesis
      by (auto simp: tracks_def calls_Ask nth_append split: sum.splits)
  qed
qed

lemma tracks_Clear_other:
  assumes "tracks c sid w base" and "sid' \<noteq> sid"
  shows "tracks (step env c (Clear sid' mid)) sid w base"
  using assms foreign_clear [OF assms(2), of env mid "st c"]
  by (auto simp: tracks_def in_flight_iff step_Clear split: option.splits)

lemma tracks_Answer_other:
  assumes "owned c" and "tracks c sid w base" and "\<forall>q. w \<noteq> Some (k, q)"
  shows "tracks (step env c (Answer k response)) sid w base"
proof (cases "k < length (calls c) \<and> calls c ! k \<noteq> None")
  case False
  with assms(2) show ?thesis by (simp add: step_Answer_idle)
next
  case True
  then obtain cl where cl: "calls c ! k = Some cl" and k: "k < length (calls c)"
    by auto
  then have in_set: "Some cl \<in> set (calls c)"
    by (metis nth_mem)
  have other: "call_session cl \<noteq> sid"
  proof (cases w)
    case None
    with assms(2) in_set show ?thesis
      by (auto simp: tracks_def in_flight_iff)
  next
    case (Some kq)
    obtain k' q0 where kq: "kq = (k', q0)" by (cases kq)
    with Some assms(3) have "k \<noteq> k'" by auto
    with Some kq assms(2) cl k show ?thesis
      by (auto simp: tracks_def)
  qed
  note f = foreign_resume [OF assms(1) in_set other, of response]
  have st: "st (step env c (Answer k response)) =
      snd (queryFlowise_resume (call_history cl) (call_session cl) response (st c))"
    and cs: "calls (step env c (Answer k response)) = (calls c)[k := None]"
    using step_Answer [OF k cl] by simp_all
  show ?thesis
  proof (cases w)
    case None
    with assms(2) f show ?thesis
      unfolding tracks_def st cs in_flight_iff
      by (auto dest: set_update_None)
  next
    case (Some kq)
    obtain k' q0 where kq: "kq = (k', q0)" by (cases kq)
    with Some assms(3) have ne: "k' \<noteq> k" by auto
    with Some kq assms(2) f show ?thesis
      unfolding tracks_def st cs
      by (auto dest: nth_update_None)
  qed
qed

text \<open>The session's own steps.\<close>

lemma tracks_Ask:
  assumes "tracks c sid None base"
  shows "tracks (step env c (Ask sid q)) sid (Some (length (calls c), q)) base"
proof -
  from assms have j0: "list_all joinable (history_of (st c) sid)"
    and nf: "\<not> in_flight c sid" and h: "history_of (st c) sid = base"
    by (auto simp: tracks_def)
  from j0 have j: "list_all joinable (history_of (st c) sid @ [JStr q])"
    by (simp add: joinable_def)
  from array_join_joinable [OF j] obtain body where
    body: "array_join '' '' (history_of (st c) sid @ [JStr q]) = Inr body"
    by blast
  have old: "call_session cl \<noteq> sid" if "j < length (calls c)" "calls c ! j = Some cl" for j cl
    using nf that by (metis in_flight_iff nth_mem)
  from j h body old show ?thesis
    by (auto simp: tracks_def calls_Ask begin_state nth_append)
qed

lemma tracks_Answer:
  assumes "tracks c sid (Some (k, q)) base" and "answers result"
  shows "tracks (step env c (Answer k (Some result))) sid None (base @ [JStr q, text_of result])"
proof -
  from assms(1) obtain r where k: "k < length (calls c)"
    and cl: "calls c ! k = Some \<lparr>call_history = r, call_session = sid\<rparr>"
    and m: "conversationHistories (st c) sid = Some r"
    and others: "\<And>j cl. j < length (calls c) \<Longrightarrow> j \<noteq> k \<Longrightarrow> calls c ! j = Some cl \<Longrightarrow>
        call_session cl \<noteq> sid"
    and h: "history_of (st c) sid = base @ [JStr q]"
    and j: "list_all joinable (history_of (st c) sid)"
    by (auto simp: tracks_def)
  from assms(2) have acc: "accepted (Some result)" and jt: "joinable (text_of result)"
    by (simp_all add: answers_def accepted_def joinable_def)
  from m h have hr: "heap (st c) r = base @ [JStr q]"
    by (simp add: history_of_def)
  have nf: "\<not> in_flight (step env c (Answer k (Some result))) sid"
  proof
    assume "in_flight (step env c (Answer k (Some result))) sid"
    then obtain cl' where "Some cl' \<in> set ((calls c)[k := None])" and s: "call_session cl' = sid"
      using step_Answer(2) [OF k cl] by (auto simp: in_flight_iff)
    then obtain j where jl: "j < length (calls c)" and jn: "(calls c)[k := None] ! j = Some cl'"
      by (metis in_set_conv_nth length_list_update)
    from jl jn have "calls c ! j = Some cl'"
      by (rule nth_update_None)
    moreover from jl jn have "j \<noteq> k"
      by auto
    ultimately show False
      using others [OF jl] s by simp
  qed
  from step_Answer(1) [OF k cl, of env "Some result"] acc hr j jt h m nf show ?thesis
    by (simp add: tracks_def resume_state history_of_def)
qed

lemma dialogue_history:
  assumes "owned c" and "tracks c sid w base"
    and "dialogue sid w (length (calls c)) acts = Some (qas, p)"
  shows "history_of (st (run env c acts)) sid =
           base @ interleaved qas @ (case p of None \<Rightarrow> [] | Some q \<Rightarrow> [JStr q])"
  using assms
proof (induction acts arbitrary: c w base qas p)
  case Nil
  then show ?case
    by (auto simp: tracks_def interleaved_def split: option.splits)
next
  case (Cons a acts)
  show ?case
  proof (cases a)
    case (Ask sid' q)
    have len: "length (calls (step env c (Ask sid' q))) = Suc (length (calls c))"
      by (simp add: calls_Ask)
    show ?thesis
    proof (cases "sid' = sid")
      case True
      with Cons.prems(3) Ask have w: "w = None"
        and d: "dialogue sid (Some (length (calls c), q)) (Suc (length (calls c))) acts =
                  Some (qas, p)"
        by (auto split: if_splits)
      from Cons.prems(2) w have "tracks (step env c (Ask sid q)) sid (Some (length (calls c), q)) base"
        by (simp add: tracks_Ask)
      from Cons.IH [OF owned_step [OF Cons.prems(1)] this] d len True Ask show ?thesis
        by simp
    next
      case False
      with Cons.prems(3) Ask have d: "dialogue sid w (Suc (length (calls c))) acts = Some (qas, p)"
        by simp
      from tracks_Ask_other [OF Cons.prems(1,2) False]
      have "tracks (step env c (Ask sid' q)) sid w base" .
      from Cons.IH [OF owned_step [OF Cons.prems(1)] this] d len Ask show ?thesis
        by simp
    qed
  next
    case (Answer k response)
    have len: "length (calls (step env c (Answer k response))) = length (calls c)"
      by (cases "k < length (calls c) \<and> calls c ! k \<noteq> None")
        (auto simp: step_Answer step_Answer_idle)
    show ?thesis
    proof (cases "\<exists>q. w = Some (k, q)")
      case True
      then obtain q where w: "w = Some (k, q)" by blast
      with Cons.prems(3) Answer obtain result qas' where
        r: "response = Some result" and a: "answers result"
        and d: "dialogue sid None (length (calls c)) acts = Some (qas', p)"
        and qas: "qas = (q, text_of result) # qas'"
        by (auto split: option.splits if_splits)
      from tracks_Answer [OF Cons.prems(2) [unfolded w] a]
      have "tracks (step env c (Answer k (Some result))) sid None (base @ [JStr q, text_of result])" .
      from Cons.IH [OF owned_step [OF Cons.prems(1)] this] d len r qas Answer show ?thesis
        by (simp add: interleaved_def)
    next
      case False
      with Cons.prems(3) Answer have d: "dialogue sid w (length (calls c)) acts = Some (qas, p)"
        by (auto split: option.splits prod.splits if_splits)
      from False have "\<forall>q. w \<noteq> Some (k, q)" by blast
      from tracks_Answer_other [OF Cons.prems(1,2) this]
      have "tracks (step env c (Answer k response)) sid w base" .
      from Cons.IH [OF owned_step [OF Cons.prems(1)] this] d len Answer show ?thesis
        by simp
    qed
  next
    case (Clear sid' mid)
    with Cons.prems(3) have ne: "sid' \<noteq> sid"
      and d: "dialogue sid w (length (calls c)) acts = Some (qas, p)"
      by (auto split: if_splits)
    from tracks_Clear_other [OF Cons.prems(2) ne]
    have "tracks (step env c (Clear sid' mid)) sid w base" .
    from Cons.IH [OF owned_step [OF Cons.prems(1)] this] d Clear show ?thesis
      by (simp add: step_Clear)
  qed
qed

lemma arrays_grow:
  "r < next_ref (st c) \<Longrightarrow> prefix (heap (st c) r) (heap (st (step env c a)) r)"
proof (cases a)
  case (Ask sid q)
  assume r: "r < next_ref (st c)"
  show ?thesis
  proof (cases "conversationHistories (st c) sid")
    case None
    with r show ?thesis
      unfolding Ask by (simp add: calls_Ask begin_state target_def)
  next
    case (Some r0)
    then show ?thesis
      unfolding Ask by (simp add: calls_Ask begin_state target_def history_of_def)
  qed
next
  case (Answer k response)
  show ?thesis
  proof (cases "k < length (calls c) \<and> calls c ! k \<noteq> None")
    case False
    then show ?thesis
      unfolding Answer by (simp add: step_Answer_idle)
  next
    case True
    then obtain cl where "k < length (calls c)" and "calls c ! k = Some cl"
      by auto
    from step_Answer(1) [OF this, of env response] show ?thesis
      unfolding Answer by (simp add: resume_state)
  qed
next
  case (Clear sid mid)
  then show ?thesis by (simp add: step_Clear)
qed

lemma foreign_step:
  assumes "\<not> in_flight c sid" and "foreign sid a"
  shows "\<not> in_flight (step env c a) sid \<and>
         conversationHistories (st (step env c a)) sid = conversationHistories (st c) sid"
proof (cases a)
  case (Ask sid' q)
  with assms show ?thesis
    by (auto simp: foreign_def calls_Ask begin_state in_flight_iff split: sum.splits)
next
  case (Answer k response)
  show ?thesis
  proof (cases "k < length (calls c) \<and> calls c ! k \<noteq> None")
    case False
    with assms(1) show ?thesis
      unfolding Answer by (simp add: step_Answer_idle)
  next
    case True
    then obtain cl where k: "k < length (calls c)" and cl: "calls c ! k = Some cl"
      by auto
    then have "Some cl \<in> set (calls c)"
      by (metis nth_mem)
    with assms(1) have "call_session cl \<noteq> sid"
      by (auto simp: in_flight_iff)
    with assms(1) step_Answer [OF k cl, of env response] show ?thesis
      unfolding Answer by (auto simp: in_flight_iff resume_state dest: set_update_None)
  qed
next
  case (Clear sid' mid)
  with assms show ?thesis
    by (auto simp: foreign_def step_Clear in_flight_iff)
qed

lemma foreign_run:
  assumes "\<not> in_flight c sid" and "list_all (foreign sid) acts"
  shows "\<not> in_flight (run env c acts) sid \<and>
         conversationHistories (st (run env c acts)) sid = conversationHistories (st c) sid"
  using assms
proof (induction acts arbitrary: c)
  case Nil
  then show ?case by simp
next
  case (Cons a acts)
  from Cons.prems have f: "foreign sid a" and fs: "list_all (foreign sid) acts"
    by simp_all
  from foreign_step [OF Cons.prems(1) f, of env] Cons.IH [OF _ fs, of "step env c a"]
  show ?case by simp
qed

section \<open>Markup normalization\<close>

text \<open>
  C8. The markup normalization maps the input \<open>**bold** and *italic*\<close> to a text in which
  the bold tag pair encloses exactly \<open>bold\<close>, the italic tag pair encloses exactly
  \<open>italic\<close>, and every other character (\<open> and \<close>) stands unchanged.
\<close>

theorem formatMarkdown_bold_and_italic:
  "formatMarkdown ''**bold** and *italic*'' = ''<b>bold</b> and <i>italic</i>''"
  by code_simp

section \<open>Session identity\<close>

text \<open>
  C9, as amended. The SessionId is the string form of chatId followed by that of senderId,
  with nothing between them. Two (chatId, senderId) pairs of strings whose chatIds have
  the same length derive different SessionIds whenever the pairs differ.
\<close>

theorem deriveSessionId_injective_same_length:
  assumes "length chatId = length chatId'"
    and "(chatId, senderId) \<noteq> (chatId', senderId')"
  shows "deriveSessionId (JStr chatId) (JStr senderId) \<noteq>
         deriveSessionId (JStr chatId') (JStr senderId')"
  using assms by (auto simp: deriveSessionId_def bindE_def)

theorem deriveSessionId_injective_witness:
  "length ''oc_1'' = length ''oc_2'' \<and> (''oc_1'', ''u1'') \<noteq> (''oc_2'', ''u1'') \<and>
   deriveSessionId (JStr ''oc_1'') (JStr ''u1'') \<noteq> deriveSessionId (JStr ''oc_2'') (JStr ''u1'')"
  using deriveSessionId_injective_same_length [of "''oc_1''" "''oc_2''" "''u1''" "''u1''"]
  by simp

text \<open>
  C9 as stated fails: the threads (chat \<open>ab\<close>, sender \<open>c\<close>) and (chat \<open>a\<close>, sender \<open>bc\<close>)
  differ and share the SessionId \<open>abc\<close>.
\<close>

theorem deriveSessionId_collision:
  "(JStr ''ab'', JStr ''c'') \<noteq> (JStr ''a'', JStr ''bc'') \<and>
   deriveSessionId (JStr ''ab'') (JStr ''c'') = deriveSessionId (JStr ''a'') (JStr ''bc'')"
  by (simp add: deriveSessionId_def bindE_def)

section \<open>The AnswerService pipeline\<close>



section \<open>Histories under interleaving\<close>

text \<open>
  C5, as amended. Take a session that has no entry in the store and no call of
  \<open>queryFlowise\<close> waiting, at any moment of a run of the process, and a schedule from
  there in which the calls of \<open>queryFlowise\<close> for the session do not overlap (each has
  returned when the next is made), each returns with an answer whose text converts to a
  string, and the session is not cleared; calls, answers and clears of other sessions may
  come in between. Then the history of the session is \<open>[q1, a1, ..., qN, aN]\<close>, followed
  by the question that still waits if there is one. And no step of any schedule removes
  or reorders what an array of histories holds: the array after the step extends the
  array before.
\<close>

theorem history_is_interleaved:
  assumes "c = run env initial pre"
    and "\<not> in_flight c sid" and "conversationHistories (st c) sid = None"
    and "dialogue sid None (length (calls c)) acts = Some (qas, p)"
  shows "history_of (st (run env c acts)) sid =
           interleaved qas @ (case p of None \<Rightarrow> [] | Some q \<Rightarrow> [JStr q]) \<and>
         (r < next_ref (st c') \<longrightarrow> prefix (heap (st c') r) (heap (st (step env c' a)) r))"
proof -
  have o: "owned c"
    unfolding assms(1) by (rule owned_run [OF owned_initial])
  from assms(2,3) have t: "tracks c sid None []"
    by (simp add: tracks_def history_of_def)
  from dialogue_history [OF o t assms(4), of env] arrays_grow [of r c' env a] show ?thesis
    by simp
qed

theorem history_is_interleaved_witness:
  "initial = run env_up initial [] \<and> \<not> in_flight initial ''s1'' \<and>
   conversationHistories (st initial) ''s1'' = None \<and>
   dialogue ''s1'' None (length (calls initial))
     [Ask ''s1'' ''a'', Ask ''s2'' ''x'', Answer 0 (Some (JObj [(''text'', JStr ''re: a'')])),
      Clear ''s2'' (JStr ''om_2''), Ask ''s1'' ''b'',
      Answer 1 (Some (JObj [(''text'', JStr ''re: x'')])),
      Answer 2 (Some (JObj [(''text'', JStr ''re: a re: a b'')]))] =
     Some ([(''a'', JStr ''re: a''), (''b'', JStr ''re: a re: a b'')], None) \<and>
   history_of
     (st (run env_up initial
        [Ask ''s1'' ''a'', Ask ''s2'' ''x'', Answer 0 (Some (JObj [(''text'', JStr ''re: a'')])),
         Clear ''s2'' (JStr ''om_2''), Ask ''s1'' ''b'',
         Answer 1 (Some (JObj [(''text'', JStr ''re: x'')])),
         Answer 2 (Some (JObj [(''text'', JStr ''re: a re: a b'')]))])) ''s1'' =
     [JStr ''a'', JStr ''re: a'', JStr ''b'', JStr ''re: a re: a b''] \<and>
   0 < next_ref (st (run env_up initial [Ask ''s1'' ''a''])) \<and>
   heap (st (run env_up initial [Ask ''s1'' ''a''])) 0 = [JStr ''a''] \<and>
   prefix [JStr ''a'']
     (heap (st (step env_up (run env_up initial [Ask ''s1'' ''a''])
                  (Answer 0 (Some (JObj [(''text'', JStr ''re: a'')]))))) 0)"
proof -
  let ?acts = "[Ask ''s1'' ''a'', Ask ''s2'' ''x'', Answer 0 (Some (JObj [(''text'', JStr ''re: a'')])),
      Clear ''s2'' (JStr ''om_2''), Ask ''s1'' ''b'',
      Answer 1 (Some (JObj [(''text'', JStr ''re: x'')])),
      Answer 2 (Some (JObj [(''text'', JStr ''re: a re: a b'')]))]"
  let ?c = "run env_up initial [Ask ''s1'' ''a'']"
  have a: "initial = run env_up initial []"
    by (simp add: run_def)
  have b: "\<not> in_flight initial ''s1''"
    by code_simp
  have c: "conversationHistories (st initial) ''s1'' = None"
    by (simp add: initial_def fresh_def)
  have d: "dialogue ''s1'' None (length (calls initial)) ?acts =
      Some ([(''a'', JStr ''re: a''), (''b'', JStr ''re: a re: a b'')], None)"
    by code_simp
  have e: "0 < next_ref (st ?c)"
    by code_simp
  have f: "heap (st ?c) 0 = [JStr ''a'']"
    by code_simp
  have g: "interleaved [(''a'', JStr ''re: a''), (''b'', JStr ''re: a re: a b'')] =
      [JStr ''a'', JStr ''re: a'', JStr ''b'', JStr ''re: a re: a b'']"
    by (simp add: interleaved_def)
  from history_is_interleaved [OF a b c d, of 0 ?c "Answer 0 (Some (JObj [(''text'', JStr ''re: a'')]))"]
    e f g
  have "history_of (st (run env_up initial ?acts)) ''s1'' =
      [JStr ''a'', JStr ''re: a'', JStr ''b'', JStr ''re: a re: a b'']"
    and "prefix [JStr ''a'']
     (heap (st (step env_up ?c (Answer 0 (Some (JObj [(''text'', JStr ''re: a'')]))))) 0)"
    by simp_all
  with a b c d e f show ?thesis
    by blast
qed

text \<open>
  C5 as stated fails: two questions of a session asked before either is answered, both
  answered, without a clear or a failure, leave the history \<open>[q1, q2, a2, a1]\<close>.
\<close>

theorem history_of_overlapping_calls:
  "history_of
     (st (run env_up initial
        [Ask ''s1'' ''a'', Ask ''s1'' ''b'',
         Answer 1 (Some (JObj [(''text'', JStr ''re: a b'')])),
         Answer 0 (Some (JObj [(''text'', JStr ''re: a'')]))])) ''s1'' =
     [JStr ''a'', JStr ''b'', JStr ''re: a b'', JStr ''re: a''] \<and>
   asked
     (st (run env_up initial
        [Ask ''s1'' ''a'', Ask ''s1'' ''b'',
         Answer 1 (Some (JObj [(''text'', JStr ''re: a b'')])),
         Answer 0 (Some (JObj [(''text'', JStr ''re: a'')]))])) = [''a'', ''a b''] \<and>
   interleaved [(''a'', JStr ''re: a''), (''b'', JStr ''re: a b'')] =
     [JStr ''a'', JStr ''re: a'', JStr ''b'', JStr ''re: a b'']"
  by code_simp

text \<open>
  C3, as amended. For a session of which no call of \<open>queryFlowise\<close> waits, \<open>/clear\<close>
  removes the entry of the session from the store: the key is absent, not bound to an
  empty list. It stays absent whatever calls and clears of other sessions, and whatever
  answers, come next; and a question asked in the session then is sent to the
  AnswerService alone.
\<close>

theorem clear_then_ask:
  assumes "\<not> in_flight c sid" and "list_all (foreign sid) others"
  shows "conversationHistories (st (step env c (Clear sid mid))) sid = None \<and>
         conversationHistories (st (run env (step env c (Clear sid mid)) others)) sid = None \<and>
         asked (st (step env (run env (step env c (Clear sid mid)) others) (Ask sid q))) =
           asked (st (run env (step env c (Clear sid mid)) others)) @ [q]"
proof -
  let ?c1 = "step env c (Clear sid mid)"
  let ?c2 = "run env ?c1 others"
  have c1: "conversationHistories (st ?c1) sid = None" and nf: "\<not> in_flight ?c1 sid"
    using assms(1) by (simp_all add: step_Clear in_flight_iff)
  from foreign_run [OF nf assms(2), of env] c1
  have c2: "conversationHistories (st ?c2) sid = None"
    by simp
  then have "history_of (st ?c2) sid = []"
    by (simp add: history_of_def)
  then have "asked (st (step env ?c2 (Ask sid q))) = asked (st ?c2) @ [q]"
    by (simp add: calls_Ask begin_result)
  with c1 c2 show ?thesis by simp
qed

theorem clear_then_ask_witness:
  "\<not> in_flight
       (run env_up initial
          [Ask ''s1'' ''old'', Answer 0 (Some (JObj [(''text'', JStr ''re: old'')]))]) ''s1'' \<and>
   list_all (foreign ''s1'')
     [Ask ''s2'' ''x'', Answer 1 (Some (JObj [(''text'', JStr ''re: x'')]))] \<and>
   history_of
     (st (run env_up initial
        [Ask ''s1'' ''old'', Answer 0 (Some (JObj [(''text'', JStr ''re: old'')]))])) ''s1'' =
     [JStr ''old'', JStr ''re: old''] \<and>
   conversationHistories
     (st (step env_up
        (run env_up initial
           [Ask ''s1'' ''old'', Answer 0 (Some (JObj [(''text'', JStr ''re: old'')]))])
        (Clear ''s1'' (JStr ''om_1'')))) ''s1'' = None \<and>
   asked
     (st (run env_up initial
        [Ask ''s1'' ''old'', Answer 0 (Some (JObj [(''text'', JStr ''re: old'')])),
         Clear ''s1'' (JStr ''om_1''),
         Ask ''s2'' ''x'', Answer 1 (Some (JObj [(''text'', JStr ''re: x'')])),
         Ask ''s1'' ''hello''])) = [''old'', ''x'', ''hello'']"
proof -
  let ?c = "run env_up initial
          [Ask ''s1'' ''old'', Answer 0 (Some (JObj [(''text'', JStr ''re: old'')]))]"
  let ?others = "[Ask ''s2'' ''x'', Answer 1 (Some (JObj [(''text'', JStr ''re: x'')]))]"
  have a: "\<not> in_flight ?c ''s1''"
    by code_simp
  have b: "list_all (foreign ''s1'') ?others"
    by code_simp
  have h: "history_of (st ?c) ''s1'' = [JStr ''old'', JStr ''re: old'']"
    by code_simp
  have p: "asked (st (run env_up (step env_up ?c (Clear ''s1'' (JStr ''om_1''))) ?others)) =
      [''old'', ''x'']"
    by code_simp
  have r: "run env_up initial
        [Ask ''s1'' ''old'', Answer 0 (Some (JObj [(''text'', JStr ''re: old'')])),
         Clear ''s1'' (JStr ''om_1''),
         Ask ''s2'' ''x'', Answer 1 (Some (JObj [(''text'', JStr ''re: x'')])),
         Ask ''s1'' ''hello''] =
      step env_up (run env_up (step env_up ?c (Clear ''s1'' (JStr ''om_1''))) ?others)
        (Ask ''s1'' ''hello'')"
    by (simp add: run_def)
  from clear_then_ask [OF a b, of env_up "JStr ''om_1''" "''hello''"] p
  have "conversationHistories (st (step env_up ?c (Clear ''s1'' (JStr ''om_1'')))) ''s1'' = None"
    and "asked (st (step env_up (run env_up (step env_up ?c (Clear ''s1'' (JStr ''om_1''))) ?others)
        (Ask ''s1'' ''hello''))) = [''old'', ''x'', ''hello'']"
    by simp_all
  with a b h r show ?thesis
    by simp
qed

text \<open>
  C3 as stated fails: a \<open>/clear\<close> made while a call of \<open>queryFlowise\<close> for the session
  waits is undone when the call returns. The call holds the array of the history it
  found, appends the answer to it and binds the key to it again: the session has an
  entry again, and the next question is sent after the earlier question and its answer.
\<close>

theorem clear_undone_by_waiting_call:
  "conversationHistories
     (st (run env_up initial [Ask ''s1'' ''old'', Clear ''s1'' (JStr ''om_1'')])) ''s1'' = None \<and>
   history_of
     (st (run env_up initial
        [Ask ''s1'' ''old'', Clear ''s1'' (JStr ''om_1''),
         Answer 0 (Some (JObj [(''text'', JStr ''re: old'')]))])) ''s1'' =
     [JStr ''old'', JStr ''re: old''] \<and>
   asked
     (st (run env_up initial
        [Ask ''s1'' ''old'', Clear ''s1'' (JStr ''om_1''),
         Answer 0 (Some (JObj [(''text'', JStr ''re: old'')])),
         Ask ''s1'' ''hello''])) = [''old'', ''old re: old hello'']"
  by code_simp

section \<open>The reply operation\<close>

text \<open>
  C7, as amended. For a text and a list of artifacts (none of them \<open>null\<close>), \<open>reply\<close>
  attempts the text message first and then one image message for each artifact of type
  \<open>png\<close>, in their original order, and stops at the first call that fails: what it
  attempts is a non-empty initial part of that sequence, every call but the last was
  accepted, and it is the whole sequence unless the last call attempted was refused.
\<close>

theorem reply_attempts:
  assumes "list_all present as"
  shows "\<exists>attempts.
           outbox (reply env mid (JStr c) (JArr as) t s) = outbox s @ [attempts] \<and>
           attempts \<noteq> [] \<and>
           prefix attempts (text_message mid c t # png_images mid as) \<and>
           delivered env (concat (outbox s)) (butlast attempts) \<and>
           (attempts = text_message mid c t # png_images mid as \<or>
            \<not> delivered env (concat (outbox s)) attempts)"
proof (cases "lark_reply env (concat (outbox s)) (text_message mid c t)")
  case None
  then show ?thesis
    by (simp add: reply_def Let_def text_message_def)
next
  case (Some r)
  let ?m = "text_message mid c t"
  let ?A = "send_artifacts env (concat (outbox s) @ [?m]) mid as"
  from Some have "outbox (reply env mid (JStr c) (JArr as) t s) = outbox s @ [?m # ?A]"
    by (simp add: reply_def Let_def text_message_def)
  moreover from send_artifacts_spec [OF assms, of env "concat (outbox s) @ [?m]" mid] Some
  have "prefix (?m # ?A) (?m # png_images mid as) \<and>
        delivered env (concat (outbox s)) (butlast (?m # ?A)) \<and>
        (?m # ?A = ?m # png_images mid as \<or> \<not> delivered env (concat (outbox s)) (?m # ?A))"
    by auto
  ultimately show ?thesis by blast
qed

theorem reply_attempts_witness:
  "list_all present [png_artifact ''k0'', JObj [(''type'', JStr ''pdf'')], png_artifact ''k2''] \<and>
   (\<exists>attempts.
      outbox (reply env_up (JStr ''om_1'') (JStr ''**done**'')
                (JArr [png_artifact ''k0'', JObj [(''type'', JStr ''pdf'')], png_artifact ''k2''])
                ''text'' fresh) = outbox fresh @ [attempts] \<and>
      attempts \<noteq> [] \<and>
      prefix attempts
        (text_message (JStr ''om_1'') ''**done**'' ''text'' #
         png_images (JStr ''om_1'')
           [png_artifact ''k0'', JObj [(''type'', JStr ''pdf'')], png_artifact ''k2''])) \<and>
   outbox (reply env_up (JStr ''om_1'') (JStr ''**done**'')
             (JArr [png_artifact ''k0'', JObj [(''type'', JStr ''pdf'')], png_artifact ''k2''])
             ''text'' fresh) =
     [[\<lparr>message_id = JStr ''om_1'', content = Text_content ''<b>done</b>'', msg_type = ''text''\<rparr>,
       \<lparr>message_id = JStr ''om_1'', content = Image_key (JStr ''k0''), msg_type = ''image''\<rparr>,
       \<lparr>message_id = JStr ''om_1'', content = Image_key (JStr ''k2''), msg_type = ''image''\<rparr>]]"
proof -
  have a: "list_all present
      [png_artifact ''k0'', JObj [(''type'', JStr ''pdf'')], png_artifact ''k2'']"
    by code_simp
  have b: "outbox (reply env_up (JStr ''om_1'') (JStr ''**done**'')
             (JArr [png_artifact ''k0'', JObj [(''type'', JStr ''pdf'')], png_artifact ''k2''])
             ''text'' fresh) =
     [[\<lparr>message_id = JStr ''om_1'', content = Text_content ''<b>done</b>'', msg_type = ''text''\<rparr>,
       \<lparr>message_id = JStr ''om_1'', content = Image_key (JStr ''k0''), msg_type = ''image''\<rparr>,
       \<lparr>message_id = JStr ''om_1'', content = Image_key (JStr ''k2''), msg_type = ''image''\<rparr>]]"
    by code_simp
  from reply_attempts [OF a, of env_up "JStr ''om_1''" "''**done**''" "''text''" fresh] a b
  show ?thesis by blast
qed

text \<open>
  C7 as stated fails: of the artifacts \<open>k1\<close> and \<open>k2\<close>, the image \<open>k1\<close> is refused, and
  the image \<open>k2\<close> is never attempted.
\<close>

theorem reply_stops_at_first_failure:
  "outbox (reply env_k1_refused (JStr ''om_1'') (JStr ''done'')
             (JArr [png_artifact ''k1'', png_artifact ''k2'']) ''text'' fresh) =
     [[\<lparr>message_id = JStr ''om_1'', content = Text_content ''done'', msg_type = ''text''\<rparr>,
       \<lparr>message_id = JStr ''om_1'', content = Image_key (JStr ''k1''), msg_type = ''image''\<rparr>]]"
  by code_simp

section \<open>The webhook\<close>

text \<open>
  C6, as amended. For a message event that carries \<open>event.message\<close> and
  \<open>event.sender.sender_id\<close>, whose \<open>chat_id\<close> and \<open>user_id\<close> convert to strings, that is
  not a duplicate and whose message type is not \<open>text\<close>, the handler answers
  \<open>{code: 0}\<close>, makes one reply, the fixed notice that only text is supported, asks the
  AnswerService nothing and leaves every history as it was.
\<close>

theorem non_text_message:
  assumes "is_message_event params"
    and "message_fields params = Inr (messageId, chatId, messageType, senderId)"
    and "deriveSessionId chatId senderId = Inr sessionId"
    and "\<not> has (processedEvents s) (event_id params)"
    and "messageType \<noteq> JStr ''text''"
  shows "fst (webhook env params s) = Inr (JObj [(''code'', JNum ''0'')]) \<and>
         outbox (snd (webhook env params s)) =
           outbox s @ [[\<lparr>message_id = messageId,
                          content = Text_content ''Only text messages are supported.'',
                          msg_type = ''text''\<rparr>]] \<and>
         asked (snd (webhook env params s)) = asked s \<and>
         conversationHistories (snd (webhook env params s)) = conversationHistories s \<and>
         heap (snd (webhook env params s)) = heap s"
  using assms
  by (simp add: webhook_message message_received_def handle_message_def reply_plain
      text_message_def formatMarkdown_only_text)

theorem non_text_message_witness:
  "is_message_event image_event \<and>
   message_fields image_event = Inr (JStr ''om_1'', JStr ''oc_1'', JStr ''image'', JStr ''u1'') \<and>
   deriveSessionId (JStr ''oc_1'') (JStr ''u1'') = Inr ''oc_1u1'' \<and>
   \<not> has (processedEvents fresh) (event_id image_event) \<and>
   JStr ''image'' \<noteq> JStr ''text'' \<and>
   fst (webhook env_up image_event fresh) = Inr (JObj [(''code'', JNum ''0'')]) \<and>
   outbox (snd (webhook env_up image_event fresh)) =
     [[\<lparr>message_id = JStr ''om_1'', content = Text_content ''Only text messages are supported.'',
        msg_type = ''text''\<rparr>]] \<and>
   asked (snd (webhook env_up image_event fresh)) = [] \<and>
   conversationHistories (snd (webhook env_up image_event fresh)) = Map.empty"
proof -
  have a: "is_message_event image_event"
    by code_simp
  have b: "message_fields image_event =
      Inr (JStr ''om_1'', JStr ''oc_1'', JStr ''image'', JStr ''u1'')"
    by code_simp
  have i: "deriveSessionId (JStr ''oc_1'') (JStr ''u1'') = Inr ''oc_1u1''"
    by code_simp
  have c: "\<not> has (processedEvents fresh) (event_id image_event)"
    by (simp add: fresh_def has_def split: jsval.splits)
  have d: "JStr ''image'' \<noteq> JStr ''text''"
    by simp
  have f: "outbox fresh = []" "asked fresh = []" "conversationHistories fresh = Map.empty"
    by (simp_all add: fresh_def)
  from non_text_message [OF a b i c d, of env_up] f a b c i show ?thesis
    by simp
qed

text \<open>
  C6 as stated fails: an image message event without \<open>event.sender\<close> is not a duplicate
  and not a text, and the handler throws a TypeError before any reply.
\<close>

theorem non_text_message_without_sender:
  "is_message_event no_sender_event \<and>
   \<not> has (processedEvents fresh) (event_id no_sender_event) \<and>
   property (property (property no_sender_event ''event'') ''message'') ''message_type'' =
     JStr ''image'' \<and>
   fst (webhook env_up no_sender_event fresh) = Inl TypeError \<and>
   outbox (snd (webhook env_up no_sender_event fresh)) = []"
proof -
  have "is_message_event no_sender_event"
    by code_simp
  moreover have "\<not> has (processedEvents fresh) (event_id no_sender_event)"
    by (simp add: fresh_def has_def split: jsval.splits)
  moreover have
    "property (property (property no_sender_event ''event'') ''message'') ''message_type'' =
       JStr ''image''"
    by code_simp
  moreover have "fst (webhook env_up no_sender_event fresh) = Inl TypeError"
    by code_simp
  moreover have "outbox (snd (webhook env_up no_sender_event fresh)) = []"
    by code_simp
  ultimately show ?thesis by blast
qed







section \<open>The two source files\<close>




end
